theory Spec2Isabelle
  imports Complex_Main "HOL-Library.Word" "HOL-Library.Signed_Division" "HOL-Library.Log_Nat"
begin

section \<open>Constants\<close>

text \<open>
  The reader is written in C; \<open>int\<close> and \<open>long\<close> values are modelled as unbounded
  integers. Signed overflow is undefined in C, so the model and the code agree wherever
  the behaviour of the code is defined. Divisions truncate towards zero (\<open>sdiv\<close>).
\<close>

text \<open>Modelled from the spec: the header file defining \<open>UDPHDRLEN\<close> is not part of the
  sources; the spec fixes the wire header at 16 bytes.\<close>
definition UDPHDRLEN :: int where
  "UDPHDRLEN = 16"

text \<open>Modelled from the spec: \<open>UDPNTIMESLICE\<close> is declared in the missing header; the spec
  gives the fixed timeslice count per packet as 16.\<close>
definition UDPNTIMESLICE :: int where
  "UDPNTIMESLICE = 16"

text \<open>Modelled from the spec: \<open>UDPNPOL\<close> is declared in the missing header; the spec gives
  four polarisation components (one output per component in the split modes).\<close>
definition UDPNPOL :: int where
  "UDPNPOL = 4"


text \<open>\<open>LONG_MAX\<close> of \<open>limits.h\<close> on the LP64 platforms the reader targets.\<close>
definition LONG_MAX :: int where
  "LONG_MAX = 2 ^ 63 - 1"

text \<open>The remaining constants of the missing header have no value in the spec; every
  function that uses one takes this record as a parameter.\<close>
record lofar_consts =
  UDPCURVER :: int
  LFREPOCH :: int
  RSPMAXSEQ :: int
  UDPMAXBEAM :: int

section \<open>Data model\<close>

type_synonym byte = "8 word"

text \<open>
  \<open>meta->inputData[port]\<close> points \<open>2 * portPacketLength\<close> bytes into its allocation, so
  negative indices address the guard packets. A buffer is the map from the logical byte
  index to the byte stored there. The map is total: an access outside the allocation is
  undefined in C and has no counterpart here.
\<close>
type_synonym buffer = "int \<Rightarrow> byte"

datatype reader_t = NORMAL | ZSTDCOMPRESSED | DADA_ACTIVE

record lofar_udp_meta =
  inputData :: "nat \<Rightarrow> buffer"
  numPorts :: int
  replayDroppedPackets :: int
  processingMode :: int
  calibrateData :: int
  calibrationStep :: int
  totalRawBeamlets :: int
  totalProcBeamlets :: int
  clockBit :: int
  stationID :: int
  inputBitMode :: int
  outputBitMode :: int
  numOutputs :: int
  portRawBeamlets :: "nat \<Rightarrow> int"
  upperBeamlets :: "nat \<Rightarrow> int"
  baseBeamlets :: "nat \<Rightarrow> int"
  portRawCumulativeBeamlets :: "nat \<Rightarrow> int"
  portCumulativeBeamlets :: "nat \<Rightarrow> int"
  portPacketLength :: "nat \<Rightarrow> int"
  packetOutputLength :: "nat \<Rightarrow> int"
  inputDataOffset :: "nat \<Rightarrow> int"
  portLastDroppedPackets :: "nat \<Rightarrow> int"
  portTotalDroppedPackets :: "nat \<Rightarrow> int"
  packetsPerIteration :: int
  packetsRead :: int
  packetsReadMax :: int
  lastPacket :: int
  leadingPacket :: int
  inputDataReady :: int
  outputDataReady :: int

text \<open>
  \<open>reader->input\<close>: the reader type, the per-port position of the decompression
  tracker, and the state of the transports themselves (file positions, decompression
  streams, ring buffers), which belongs to external libraries and is left abstract.
\<close>
record 'io lofar_udp_reader_input =
  readerType :: reader_t
  decompressionTracker_pos :: "nat \<Rightarrow> int"
  transport :: 'io

text \<open>
  \<open>lofar_udp_reader\<close>. \<open>input_null\<close> records whether \<open>reader->input\<close> is \<open>NULL\<close>
  (only \<open>lofar_udp_file_reader_reuse\<close> tests it; the other functions dereference the
  pointer and are modelled for a non-null input). \<open>reader_packetsPerIteration\<close> is
  \<open>reader->packetsPerIteration\<close>, the configured window size, as opposed to
  \<open>reader->meta->packetsPerIteration\<close>, the current one.
  \<open>calibrationStepsGenerated\<close> is \<open>reader->calibration->calibrationStepsGenerated\<close>.
\<close>
record 'io lofar_udp_reader =
  input :: "'io lofar_udp_reader_input"
  input_null :: bool
  meta :: lofar_udp_meta
  calibrationStepsGenerated :: int
  reader_packetsPerIteration :: int
  ompThreads :: int

text \<open>
  The transport read \<open>lofar_udp_io_read\<close> (\<open>lofar_udp_reader_nchars\<close> in the older
  sources) is a parameter: from the input state, the port, the port's buffer, the offset
  of the target in it and the number of bytes requested it gives the number of bytes
  read, the buffer and the input state afterwards.
\<close>
type_synonym 'io io_read =
  "'io lofar_udp_reader_input \<Rightarrow> nat \<Rightarrow> buffer \<Rightarrow> int \<Rightarrow> int
     \<Rightarrow> int \<times> buffer \<times> 'io lofar_udp_reader_input"

text \<open>\<open>lofar_get_packet_number\<close> is declared in a missing header; it is a parameter
  giving the packet number of the header at a byte offset of a buffer.\<close>
type_synonym get_packet_number = "buffer \<Rightarrow> int \<Rightarrow> int"

definition ports :: "lofar_udp_meta \<Rightarrow> nat list" where
  "ports m = [0..<nat (numPorts m)]"

section \<open>Reading from an uncompressed file\<close>

text \<open>
  The \<open>NORMAL\<close> branch of \<open>lofar_udp_reader_nchars\<close>: a negative request is an error
  (\<open>-1\<close>), otherwise \<open>fread\<close> delivers as many bytes as the file still holds, up to the
  request. The transport state is what remains of each port's file.
\<close>
definition reader_nchars_NORMAL :: "(nat \<Rightarrow> byte list) io_read" where
  "reader_nchars_NORMAL inp port buf off nchars =
     (if nchars < 0 then (-1, buf, inp)
      else
        let f = transport inp port;
            k = min (nat nchars) (length f)
        in (int k,
            (\<lambda>i. if off \<le> i \<and> i < off + int k then f ! nat (i - off) else buf i),
            inp\<lparr>transport := (transport inp)(port := drop k f)\<rparr>))"

section \<open>Shifting the remainder\<close>

text \<open>\<open>memmove\<close>: the destination range receives the old content of the source range,
  whether or not the two overlap.\<close>
definition memmove :: "buffer \<Rightarrow> int \<Rightarrow> int \<Rightarrow> int \<Rightarrow> buffer" where
  "memmove b dst src n = (\<lambda>i. if dst \<le> i \<and> i < dst + n then b (src + (i - dst)) else b i)"

text \<open>The loop \<open>for (i = 0; i < n; i++) b[start + i] = 0\<close>.\<close>
definition zero_fill :: "buffer \<Rightarrow> int \<Rightarrow> int \<Rightarrow> buffer" where
  "zero_fill b start n = (\<lambda>i. if start \<le> i \<and> i < start + n then 0 else b i)"

text \<open>First loop of \<open>lofar_udp_shift_remainder_packets\<close>: reset the offsets, add up the
  requested shifts, look for a decompression overshoot.\<close>
definition shift_precheck_port ::
  "(nat \<Rightarrow> int) \<Rightarrow> nat \<Rightarrow> int \<times> bool \<times> 'io lofar_udp_reader \<Rightarrow> int \<times> bool \<times> 'io lofar_udp_reader"
where
  "shift_precheck_port shiftPackets port acc =
     (case acc of (totalShift, fixBuffer, r) \<Rightarrow>
        let m = meta r;
            r' = r\<lparr>meta := m\<lparr>inputDataOffset := (inputDataOffset m)(port := 0)\<rparr>\<rparr>;
            fix' = (if readerType (input r) = ZSTDCOMPRESSED
                       \<and> decompressionTracker_pos (input r) port
                           > portPacketLength m port * packetsPerIteration m
                    then True else fixBuffer)
        in (totalShift + shiftPackets port, fix', r'))"

text \<open>Body of the second loop, for one port.\<close>
definition shift_port ::
  "(nat \<Rightarrow> int) \<Rightarrow> int \<Rightarrow> bool \<Rightarrow> nat \<Rightarrow> int \<times> 'io lofar_udp_reader \<Rightarrow> int \<times> 'io lofar_udp_reader"
where
  "shift_port shiftPackets handlePadding fixBuffer port acc =
     (case acc of (returnVal, r) \<Rightarrow>
        let m = meta r;
            packetShift = (if shiftPackets port \<le> reader_packetsPerIteration r
                           then shiftPackets port else reader_packetsPerIteration r)
        in
        if packetShift > 0 \<or> handlePadding = 1 \<or> (handlePadding = 1 \<and> fixBuffer) then
          if packetShift < 0 \<and> handlePadding = 0 then
            (-1, r\<lparr>meta := m\<lparr>inputDataOffset := (inputDataOffset m)(port := 0)\<rparr>\<rparr>)
          else
            let returnVal' = (if packetShift < 0 then -1 else returnVal);
                packetShift' = (if packetShift < 0 then 0 else packetShift);
                ppl = portPacketLength m port;
                sourceOffset = ppl * (packetsPerIteration m - packetShift' - handlePadding);
                destOffset = -1 * ppl * handlePadding;
                byteShift0 = (packetShift' + handlePadding) * ppl;
                pos = decompressionTracker_pos (input r) port;
                byteShift = (if readerType (input r) = ZSTDCOMPRESSED
                                \<and> pos > ppl * packetsPerIteration m
                             then byteShift0 + (pos - ppl * packetsPerIteration m)
                             else byteShift0);
                inp' = (if readerType (input r) = ZSTDCOMPRESSED
                        then (input r)\<lparr>decompressionTracker_pos :=
                               (decompressionTracker_pos (input r))(port := destOffset + byteShift)\<rparr>
                        else input r);
                moved = memmove (inputData m port) destOffset sourceOffset byteShift;
                cleared = (if replayDroppedPackets m = 0
                           then zero_fill moved (-2 * ppl) ppl else moved)
            in (returnVal',
                r\<lparr>input := inp',
                  meta := m\<lparr>inputData := (inputData m)(port := cleared),
                             inputDataOffset := (inputDataOffset m)(port := destOffset + byteShift)\<rparr>\<rparr>)
        else (returnVal, r))"

definition lofar_udp_shift_remainder_packets ::
  "'io lofar_udp_reader \<Rightarrow> (nat \<Rightarrow> int) \<Rightarrow> int \<Rightarrow> int \<times> 'io lofar_udp_reader"
where
  "lofar_udp_shift_remainder_packets r shiftPackets handlePadding =
     (case fold (shift_precheck_port shiftPackets) (ports (meta r)) (0, False, r) of
        (totalShift, fixBuffer, r1) \<Rightarrow>
          if totalShift < 1 \<and> \<not> fixBuffer then (0, r1)
          else fold (shift_port shiftPackets handlePadding fixBuffer) (ports (meta r1)) (0, r1))"

section \<open>Reading a window\<close>

text \<open>The cap on the packets read, lines "Ensure we aren't passed the read length cap".\<close>
definition read_step_cap :: "'io lofar_udp_reader \<Rightarrow> int \<times> 'io lofar_udp_reader" where
  "read_step_cap r =
     (let m = meta r in
      if packetsRead m \<ge> packetsReadMax m - packetsPerIteration m
      then (-2, r\<lparr>meta := m\<lparr>packetsPerIteration := packetsReadMax m - packetsRead m\<rparr>\<rparr>)
      else (0, r))"

text \<open>
  Body of the read loop for one port. The loop is an OpenMP parallel loop whose
  iterations share only \<open>packetsPerIteration\<close> (lowered inside a critical section) and
  the return value; the model runs the ports in order, which is one of its schedules.
\<close>
definition read_port ::
  "'io io_read \<Rightarrow> nat \<Rightarrow> int \<times> 'io lofar_udp_reader \<Rightarrow> int \<times> 'io lofar_udp_reader"
where
  "read_port rd port acc =
     (case acc of (returnVal, r) \<Rightarrow>
        let m = meta r in
        if portLastDroppedPackets m port > packetsPerIteration m then (returnVal, r)
        else
          let charsToRead = (packetsPerIteration m - portLastDroppedPackets m port)
                              * portPacketLength m port
          in case rd (input r) port (inputData m port) (inputDataOffset m port) charsToRead of
               (charsRead, buf', inp') \<Rightarrow>
                 let m1 = m\<lparr>inputData := (inputData m)(port := buf')\<rparr> in
                 if charsRead < charsToRead then
                   let packetPerIter = (charsRead sdiv portPacketLength m port)
                                         + portLastDroppedPackets m port;
                       m2 = (if packetPerIter < packetsPerIteration m1
                             then (if packetPerIter > 0
                                   then m1\<lparr>packetsPerIteration := packetPerIter\<rparr>
                                   else m1\<lparr>packetsPerIteration := 0\<rparr>)
                             else m1)
                   in (-3, r\<lparr>input := inp', meta := m2\<rparr>)
                 else (returnVal, r\<lparr>input := inp', meta := m1\<rparr>))"

definition lofar_udp_reader_read_step ::
  "'io io_read \<Rightarrow> 'io lofar_udp_reader \<Rightarrow> int \<times> 'io lofar_udp_reader"
where
  "lofar_udp_reader_read_step rd r =
     (if packetsPerIteration (meta r) = 0 then (1, r)
      else
        let r1 = r\<lparr>meta := (meta r)\<lparr>packetsPerIteration := reader_packetsPerIteration r\<rparr>\<rparr>
        in case lofar_udp_shift_remainder_packets r1 (portLastDroppedPackets (meta r1)) 1 of
             (shiftVal, r2) \<Rightarrow>
               if shiftVal > 0 then (1, r2)
               else case read_step_cap r2 of
                 (capVal, r3) \<Rightarrow>
                   case fold (read_port rd) (ports (meta r3)) (capVal, r3) of
                     (returnVal, r4) \<Rightarrow>
                       (returnVal, r4\<lparr>meta := (meta r4)\<lparr>inputDataReady := 1\<rparr>\<rparr>))"

section \<open>Aligning on a target packet\<close>

text \<open>
  Loops that the code runs over the ports with an early \<open>return\<close>: the body gives
  \<open>Inl\<close> for the early return and \<open>Inr\<close> to go on; \<open>None\<close> stands for a \<open>while\<close> loop
  inside the body that did not finish within the fuel.
\<close>
fun for_ports :: "(nat \<Rightarrow> 's \<Rightarrow> ('e + 's) option) \<Rightarrow> nat list \<Rightarrow> 's \<Rightarrow> ('e + 's) option" where
  "for_ports body [] s = Some (Inr s)"
| "for_ports body (p # ps) s =
     (case body p s of
        None \<Rightarrow> None
      | Some (Inl e) \<Rightarrow> Some (Inl e)
      | Some (Inr s') \<Rightarrow> for_ports body ps s')"

text \<open>Second loop of \<open>lofar_udp_skip_to_packet\<close>: the deficit of each port.\<close>
definition skip_init_dropped :: "get_packet_number \<Rightarrow> nat \<Rightarrow> lofar_udp_meta \<Rightarrow> lofar_udp_meta" where
  "skip_init_dropped pn port m =
     (let lastPacketOffset = (packetsPerIteration m - 1) * portPacketLength m port;
          currentPacket = pn (inputData m port) 0;
          d = (if pn (inputData m port) lastPacketOffset \<ge> lastPacket m
               then packetsPerIteration m
               else pn (inputData m port) lastPacketOffset
                      - (currentPacket + packetsPerIteration m));
          d' = (if d < 0 then 0 else d)
      in m\<lparr>portLastDroppedPackets := (portLastDroppedPackets m)(port := d')\<rparr>)"

text \<open>Inner loop of the scan, run after every read: the deficits of all ports, measured
  at the last-packet offset of the port being scanned.\<close>
definition scan_resync_port ::
  "get_packet_number \<Rightarrow> int \<Rightarrow> int \<Rightarrow> nat \<Rightarrow> int \<times> lofar_udp_meta \<Rightarrow> int \<times> lofar_udp_meta"
where
  "scan_resync_port pn lastPacketOffset currentPacket portInner acc =
     (case acc of (returnVal, m) \<Rightarrow>
        let d = (if pn (inputData m portInner) lastPacketOffset \<ge> lastPacket m
                 then packetsPerIteration m
                 else pn (inputData m portInner) lastPacketOffset
                        - (currentPacket + packetsPerIteration m));
            d' = (if d < 0 then 0 else d)
        in (if d' > packetsPerIteration m then -2 else returnVal,
            m\<lparr>portLastDroppedPackets := (portLastDroppedPackets m)(portInner := d')\<rparr>))"

text \<open>The loop \<open>while (currentPacket < reader->meta->lastPacket)\<close> of the scan.\<close>
fun scan_loop ::
  "nat \<Rightarrow> get_packet_number \<Rightarrow> 'io io_read \<Rightarrow> nat \<Rightarrow> int \<Rightarrow> int \<Rightarrow> int \<times> 'io lofar_udp_reader
     \<Rightarrow> ((int \<times> 'io lofar_udp_reader) + (int \<times> 'io lofar_udp_reader)) option"
where
  "scan_loop 0 pn rd port lastPacketOffset currentPacket (returnVal, r) =
     (if currentPacket < lastPacket (meta r) then None else Some (Inr (returnVal, r)))"
| "scan_loop (Suc fuel) pn rd port lastPacketOffset currentPacket (returnVal, r) =
     (if currentPacket < lastPacket (meta r) then
        (case lofar_udp_reader_read_step rd r of
           (rv, r1) \<Rightarrow>
             if rv > 0 then Some (Inl (rv, r1))
             else
               let currentPacket' = pn (inputData (meta r1) port) lastPacketOffset
               in case fold (scan_resync_port pn lastPacketOffset currentPacket')
                         (ports (meta r1)) (rv, meta r1) of
                    (rv', m') \<Rightarrow>
                      scan_loop fuel pn rd port lastPacketOffset currentPacket'
                        (rv', r1\<lparr>meta := m'\<rparr>))
      else Some (Inr (returnVal, r)))"

text \<open>Body of the third loop: scan one port up to the target.\<close>
definition scan_port ::
  "nat \<Rightarrow> get_packet_number \<Rightarrow> 'io io_read \<Rightarrow> nat \<Rightarrow> int \<times> 'io lofar_udp_reader
     \<Rightarrow> ((int \<times> 'io lofar_udp_reader) + (int \<times> 'io lofar_udp_reader)) option"
where
  "scan_port fuel pn rd port acc =
     (case acc of (returnVal, r) \<Rightarrow>
        let lastPacketOffset = (packetsPerIteration (meta r) - 1) * portPacketLength (meta r) port;
            currentPacket = pn (inputData (meta r) port) lastPacketOffset
        in case scan_loop fuel pn rd port lastPacketOffset currentPacket (returnVal, r) of
             None \<Rightarrow> None
           | Some (Inl x) \<Rightarrow> Some (Inl x)
           | Some (Inr (rv, r')) \<Rightarrow>
               if pn (inputData (meta r') port) 0 > lastPacket (meta r')
               then Some (Inl (1, r')) else Some (Inr (rv, r')))"

text \<open>
  The search \<open>while (guessPacket != reader->meta->lastPacket)\<close> inside one port's window.
  The state is \<open>(startOff, endOff, nextOff, guessPacket, lastPacket)\<close>; \<open>Inl\<close> is the
  \<open>return 1\<close> of the loop, with the target as it stands then.
\<close>
fun search_loop ::
  "nat \<Rightarrow> get_packet_number \<Rightarrow> int \<Rightarrow> int \<Rightarrow> buffer \<Rightarrow> int
     \<Rightarrow> int \<times> int \<times> int \<times> int \<times> int \<Rightarrow> (int + (int \<times> int)) option"
where
  "search_loop 0 pn rppi mppi buf ppl (startOff, endOff, nextOff, guessPacket, target) =
     (if guessPacket \<noteq> target then None else Some (Inr (nextOff, target)))"
| "search_loop (Suc fuel) pn rppi mppi buf ppl (startOff, endOff, nextOff, guessPacket, target) =
     (if guessPacket \<noteq> target then
        let endOff1 = (if endOff > rppi \<or> endOff < 0 then rppi else endOff);
            startOff1 = (if startOff > rppi \<or> startOff < 0 then 0 else startOff);
            nextOff' = (startOff1 + endOff1) sdiv 2
        in if nextOff' > mppi then Some (Inl target)
           else
             let guess' = pn buf (nextOff' * ppl) in
             if guess' = target
             then search_loop fuel pn rppi mppi buf ppl (startOff1, endOff1, nextOff', guess', target)
             else
               let startOff2 = (if guess' > target then startOff1 else nextOff' + 1);
                   endOff2 = (if guess' > target then nextOff' - 1 else endOff1)
               in if startOff2 > endOff2
                  then search_loop fuel pn rppi mppi buf ppl
                         (startOff2 - 10, endOff2 + 10, nextOff', guess', target + 1)
                  else search_loop fuel pn rppi mppi buf ppl
                         (startOff2, endOff2, nextOff', guess', target)
      else Some (Inr (nextOff, target)))"

text \<open>The shift requested for one port: the offset of the target in its window, found
  directly when no packet was lost and by the search otherwise.\<close>
definition find_shift ::
  "nat \<Rightarrow> get_packet_number \<Rightarrow> nat \<Rightarrow> 'io lofar_udp_reader \<Rightarrow> (int + (int \<times> int)) option"
where
  "find_shift fuel pn port r =
     (let m = meta r;
          first = pn (inputData m port) 0;
          currentPacket = (if lastPacket m - first > packetsPerIteration m \<or> lastPacket m - first < 0
                           then reader_packetsPerIteration r sdiv 2 else first);
          ppl = portPacketLength m port;
          guessPacket = pn (inputData m port) ((lastPacket m - currentPacket) * ppl)
      in if guessPacket = lastPacket m
         then Some (Inr (packetsPerIteration m - (lastPacket m - currentPacket), lastPacket m))
         else
           let guess1 = (if guessPacket > lastPacket m then currentPacket else guessPacket);
               startOff = guess1 - currentPacket;
               endOff = packetsPerIteration m;
               guess2 = pn (inputData m port) (startOff * ppl)
           in case search_loop fuel pn (reader_packetsPerIteration r) (packetsPerIteration m)
                     (inputData m port) ppl (startOff, endOff, startOff, guess2, lastPacket m) of
                None \<Rightarrow> None
              | Some (Inl target') \<Rightarrow> Some (Inl target')
              | Some (Inr (nextOff, target')) \<Rightarrow>
                  Some (Inr (packetsPerIteration m - nextOff, target')))"

text \<open>Body of the fourth loop: find the target in one port's window, shift it to the
  front and refill the window.\<close>
definition align_port ::
  "nat \<Rightarrow> get_packet_number \<Rightarrow> 'io io_read \<Rightarrow> nat \<Rightarrow> int \<times> 'io lofar_udp_reader
     \<Rightarrow> ((int \<times> 'io lofar_udp_reader) + (int \<times> 'io lofar_udp_reader)) option"
where
  "align_port fuel pn rd port acc =
     (case acc of (returnVal, r) \<Rightarrow>
        case find_shift fuel pn port r of
          None \<Rightarrow> None
        | Some (Inl target') \<Rightarrow> Some (Inl (1, r\<lparr>meta := (meta r)\<lparr>lastPacket := target'\<rparr>\<rparr>))
        | Some (Inr (shift, target')) \<Rightarrow>
            let r1 = r\<lparr>meta := (meta r)\<lparr>lastPacket := target'\<rparr>\<rparr>;
                packetShift = (\<lambda>q. if q = port then shift else 0)
            in case lofar_udp_shift_remainder_packets r1 packetShift 0 of
                 (rv, r2) \<Rightarrow>
                   if rv > 0 then Some (Inl (1, r2))
                   else
                     let nchars = (packetsPerIteration (meta r2) - shift)
                                    * portPacketLength (meta r2) port
                     in if nchars > 0 then
                          case rd (input r2) port (inputData (meta r2) port)
                                 (inputDataOffset (meta r2) port) nchars of
                            (returnLen, buf', inp') \<Rightarrow>
                              let r3 = r2\<lparr>input := inp',
                                         meta := (meta r2)\<lparr>inputData :=
                                                   (inputData (meta r2))(port := buf')\<rparr>\<rparr>
                              in if nchars > returnLen then Some (Inl (1, r3))
                                 else Some (Inr (rv, r3))
                        else Some (Inr (rv, r2)))"

text \<open>\<open>lofar_udp_skip_to_packet\<close>: the target is \<open>reader->meta->lastPacket\<close>.\<close>
definition lofar_udp_skip_to_packet ::
  "nat \<Rightarrow> get_packet_number \<Rightarrow> 'io io_read \<Rightarrow> 'io lofar_udp_reader
     \<Rightarrow> (int \<times> 'io lofar_udp_reader) option"
where
  "lofar_udp_skip_to_packet fuel pn rd r =
     (let m = meta r in
      if list_ex (\<lambda>port. pn (inputData m port) 0 > lastPacket m) (ports m) then Some (1, r)
      else
        let r1 = r\<lparr>meta := fold (skip_init_dropped pn) (ports m) m\<rparr>
        in case for_ports (scan_port fuel pn rd) (ports (meta r1)) (0, r1) of
             None \<Rightarrow> None
           | Some (Inl x) \<Rightarrow> Some x
           | Some (Inr (rv, r2)) \<Rightarrow>
               (case for_ports (align_port fuel pn rd) (ports (meta r2)) (rv, r2) of
                  None \<Rightarrow> None
                | Some (Inl x) \<Rightarrow> Some x
                | Some (Inr x) \<Rightarrow> Some x))"

text \<open>Loop of \<open>lofar_udp_get_first_packet_alignment\<close>: reset the loss counters and raise
  the target to the highest first packet.\<close>
definition align_first_port :: "get_packet_number \<Rightarrow> nat \<Rightarrow> lofar_udp_meta \<Rightarrow> lofar_udp_meta" where
  "align_first_port pn port m =
     (let m1 = m\<lparr>portLastDroppedPackets := (portLastDroppedPackets m)(port := 0),
                 portTotalDroppedPackets := (portTotalDroppedPackets m)(port := 0)\<rparr>;
          currentPacket = pn (inputData m1 port) 0
      in if currentPacket > lastPacket m1 then m1\<lparr>lastPacket := currentPacket\<rparr> else m1)"

definition lofar_udp_get_first_packet_alignment ::
  "nat \<Rightarrow> get_packet_number \<Rightarrow> 'io io_read \<Rightarrow> 'io lofar_udp_reader
     \<Rightarrow> (int \<times> 'io lofar_udp_reader) option"
where
  "lofar_udp_get_first_packet_alignment fuel pn rd r =
     (let r1 = r\<lparr>meta := fold (align_first_port pn) (ports (meta r)) (meta r)\<rparr>
      in case lofar_udp_skip_to_packet fuel pn rd r1 of
           None \<Rightarrow> None
         | Some (rv, r2) \<Rightarrow>
             Some (rv, r2\<lparr>meta := (meta r2)\<lparr>lastPacket := lastPacket (meta r2) - 1\<rparr>\<rparr>))"

section \<open>Re-using a reader\<close>

definition reuse_reset_port :: "nat \<Rightarrow> lofar_udp_meta \<Rightarrow> lofar_udp_meta" where
  "reuse_reset_port port m =
     m\<lparr>inputDataOffset := (inputDataOffset m)(port := 0),
       portLastDroppedPackets := (portLastDroppedPackets m)(port := 0)\<rparr>"

text \<open>
  \<open>lofar_udp_file_reader_reuse\<close>, as in the newer sources. (The older variant first
  tops up the buffers after a partial read, which touches the buffers and the transports
  only.)
\<close>
definition lofar_udp_file_reader_reuse ::
  "lofar_consts \<Rightarrow> nat \<Rightarrow> get_packet_number \<Rightarrow> 'io io_read \<Rightarrow> 'io lofar_udp_reader \<Rightarrow> int \<Rightarrow> int
     \<Rightarrow> (int \<times> 'io lofar_udp_reader) option"
where
  "lofar_udp_file_reader_reuse K fuel pn rd r startingPacket maxPackets =
     (let localMaxPackets = (if maxPackets < 0 then LONG_MAX else maxPackets) in
      if input_null r then Some (1, r)
      else
        let m = meta r;
            m1 = m\<lparr>packetsPerIteration := reader_packetsPerIteration r,
                   packetsRead := 0,
                   packetsReadMax := startingPacket - lastPacket m + 2 * reader_packetsPerIteration r,
                   lastPacket := startingPacket,
                   calibrationStep := calibrationStepsGenerated r + 1\<rparr>;
            m2 = fold reuse_reset_port (ports m1) m1;
            r1 = r\<lparr>meta := m2\<lparr>inputDataReady := 0\<rparr>\<rparr>
        in case (if lastPacket (meta r1) > LFREPOCH K
                 then lofar_udp_skip_to_packet fuel pn rd r1 else Some (0, r1)) of
             None \<Rightarrow> None
           | Some (rv, r2) \<Rightarrow>
               if rv > 0 then Some (rv, r2)
               else
                 (case lofar_udp_get_first_packet_alignment fuel pn rd r2 of
                    None \<Rightarrow> None
                  | Some (rv', r3) \<Rightarrow>
                      if rv' > 0 then Some (rv', r3)
                      else Some (rv', r3\<lparr>meta := (meta r3)\<lparr>packetsReadMax := localMaxPackets,
                                                           inputDataReady := 1,
                                                           outputDataReady := 0\<rparr>\<rparr>)))"

section \<open>Stepping\<close>

text \<open>
  The read phase of \<open>lofar_udp_reader_step_timed\<close>: its value is \<open>readReturnVal\<close>.
  (\<open>madvise\<close> is advisory and changes nothing the model holds; the timers are not
  modelled.)
\<close>
definition step_read_phase ::
  "'io io_read \<Rightarrow> 'io lofar_udp_reader \<Rightarrow> int \<times> 'io lofar_udp_reader"
where
  "step_read_phase rd r =
     (if inputDataReady (meta r) \<noteq> 1 \<and> outputDataReady (meta r) \<noteq> 0 then
        (case lofar_udp_reader_read_step rd r of
           (readReturnVal, r1) \<Rightarrow>
             if readReturnVal > 0 then (readReturnVal, r1)
             else (readReturnVal,
                   r1\<lparr>meta := (meta r1)\<lparr>leadingPacket := lastPacket (meta r1) + 1,
                                         outputDataReady := 0\<rparr>\<rparr>))
      else (0, r))"

text \<open>The processing phase: its value is \<open>stepReturnVal\<close>. The kernel dispatcher
  \<open>lofar_udp_cpp_loop_interface\<close> lives in the C++ backend and is a parameter.\<close>
definition step_process_phase ::
  "(lofar_udp_meta \<Rightarrow> int \<times> lofar_udp_meta) \<Rightarrow> 'io lofar_udp_reader \<Rightarrow> int \<times> 'io lofar_udp_reader"
where
  "step_process_phase kern r =
     (if outputDataReady (meta r) \<noteq> 1 \<and> packetsPerIteration (meta r) > 0 then
        (case kern (meta r) of
           (stepReturnVal, m1) \<Rightarrow>
             if stepReturnVal > 0 then (stepReturnVal, r\<lparr>meta := m1\<rparr>)
             else (stepReturnVal,
                   r\<lparr>meta := m1\<lparr>packetsRead := packetsRead m1 + packetsPerIteration m1,
                                inputDataReady := 0\<rparr>\<rparr>))
      else (0, r))"

text \<open>
  The calibration stage at the head of the step. \<open>lofar_udp_reader_calibration\<close> talks
  to an external process and is a parameter. The code leaves the step early when
  \<open>readReturnVal > lofar_udp_reader_calibration(reader)\<close>, with \<open>readReturnVal\<close> still 0.
\<close>
definition step_calibration ::
  "('io lofar_udp_reader \<Rightarrow> int \<times> 'io lofar_udp_reader) \<Rightarrow> 'io lofar_udp_reader
     \<Rightarrow> bool \<times> 'io lofar_udp_reader"
where
  "step_calibration calib r =
     (if calibrateData (meta r) \<noteq> 0 \<and> calibrationStep (meta r) \<ge> calibrationStepsGenerated r
      then (case calib r of (c, r') \<Rightarrow> (0 > c, r'))
      else (False, r))"

definition lofar_udp_reader_step_timed ::
  "('io lofar_udp_reader \<Rightarrow> int \<times> 'io lofar_udp_reader) \<Rightarrow> 'io io_read
     \<Rightarrow> (lofar_udp_meta \<Rightarrow> int \<times> lofar_udp_meta) \<Rightarrow> 'io lofar_udp_reader
     \<Rightarrow> int \<times> 'io lofar_udp_reader"
where
  "lofar_udp_reader_step_timed calib rd kern r =
     (case step_calibration calib r of
        (True, r0) \<Rightarrow> (0, r0)
      | (False, r0) \<Rightarrow>
          (case step_read_phase rd r0 of
             (readReturnVal, r1) \<Rightarrow>
               if readReturnVal > 0 then (readReturnVal, r1)
               else
                 (case step_process_phase kern r1 of
                    (stepReturnVal, r2) \<Rightarrow>
                      if stepReturnVal > 0 then (stepReturnVal, r2)
                      else if readReturnVal < stepReturnVal then (readReturnVal, r2)
                      else (stepReturnVal, r2))))"

section \<open>Selecting the processing kernel\<close>

text \<open>
  \<open>lofar_udp_setup_processing\<close> computes the output length in floating point. The
  model takes \<open>float\<close> and \<open>double\<close> to be the IEEE 754 binary formats with 24 and 53
  bits of precision, every operation evaluated in the type of its operands and rounded
  to the nearest value, ties to the even one. The exponent range is not modelled: no
  value of the computation comes near the largest or the smallest float.
\<close>

text \<open>The binary exponent of a positive rational: \<open>2 ^ ilog2 x \<le> x < 2 ^ (ilog2 x + 1)\<close>.\<close>
definition ilog2 :: "rat \<Rightarrow> int" where
  "ilog2 x = (if 1 \<le> x then bitlen \<lfloor>x\<rfloor> - 1 else - bitlen (\<lceil>1 / x\<rceil> - 1))"

text \<open>Rounding to the nearest integer, ties to the even one.\<close>
definition round_half_even :: "rat \<Rightarrow> int" where
  "round_half_even q =
     (let f = \<lfloor>q\<rfloor>; d = q - of_int f
      in if d < 1 / 2 then f else if 1 / 2 < d then f + 1 else if even f then f else f + 1)"

text \<open>Rounding to \<open>p\<close> bits of precision.\<close>
definition fp_round :: "nat \<Rightarrow> rat \<Rightarrow> rat" where
  "fp_round p x =
     (if x = 0 then 0
      else let e = ilog2 \<bar>x\<bar> - (int p - 1)
           in of_int (round_half_even (x / power_int 2 e)) * power_int 2 e)"

definition c_float :: "rat \<Rightarrow> rat" where
  "c_float = fp_round 24"

definition c_double :: "rat \<Rightarrow> rat" where
  "c_double = fp_round 53"

text \<open>A cast to \<open>int\<close> truncates towards zero.\<close>
definition c_trunc :: "rat \<Rightarrow> int" where
  "c_trunc x = (if x \<ge> 0 then \<lfloor>x\<rfloor> else \<lceil>x\<rceil>)"

text \<open>The first \<open>switch\<close>: the processing modes that pass the sanity check.\<close>
definition known_mode :: "int \<Rightarrow> bool" where
  "known_mode p \<longleftrightarrow>
     (0 \<le> p \<and> p \<le> 1) \<or> p = 2 \<or> (10 \<le> p \<and> p \<le> 11) \<or> (20 \<le> p \<and> p \<le> 21)
     \<or> (30 \<le> p \<and> p \<le> 32) \<or> (100 \<le> p \<and> p \<le> 104) \<or> (110 \<le> p \<and> p \<le> 114)
     \<or> (120 \<le> p \<and> p \<le> 124) \<or> (130 \<le> p \<and> p \<le> 134) \<or> (150 \<le> p \<and> p \<le> 154)
     \<or> (160 \<le> p \<and> p \<le> 164)"

text \<open>
  The second \<open>switch\<close>: for a mode it gives \<open>hdrOffset\<close>, \<open>equalIO\<close>, \<open>mulFactor\<close>,
  \<open>numOutputs\<close> and the output bit mode (from the one set before the switch), or
  \<open>None\<close> in the \<open>default\<close> case.
\<close>
definition mode_switch ::
  "lofar_udp_meta \<Rightarrow> (int \<times> bool \<times> rat \<times> int \<times> int) option"
where
  "mode_switch m =
     (let p = processingMode m;
          obm = outputBitMode m;
          copyBits = (if inputBitMode m = 4 then 4 else obm)
      in if p = 0 then Some (0, True, 1, numPorts m, copyBits)
         else if p = 1 then Some (-1 * UDPHDRLEN, True, 1, numPorts m, copyBits)
         else if p \<in> {2, 11, 21, 31} then Some (-1 * UDPHDRLEN, False, 1, UDPNPOL, obm)
         else if p \<in> {10, 20, 30} then Some (-1 * UDPHDRLEN, False, 1, 1, obm)
         else if p = 32 then Some (-1 * UDPHDRLEN, False, 1, 2, obm)
         else if p \<in> {100, 110, 120, 130} then Some (-1 * UDPHDRLEN, False, 1 / 4, 1, 32)
         else if p = 150 then Some (-1 * UDPHDRLEN, False, 1, 4, 32)
         else if p = 160 then Some (-1 * UDPHDRLEN, False, 2 / 4, 2, 32)
         else if p \<in> {101, 111, 121, 131, 102, 112, 122, 132,
                       103, 113, 123, 133, 104, 114, 124, 134}
         then Some (-1 * UDPHDRLEN, False, 1 / of_int (2 ^ nat ((p mod 10) + 2)), 1, 32)
         else if p \<in> {151, 152, 153, 154}
         then Some (-1 * UDPHDRLEN, False, 1 / of_int (2 ^ nat (p mod 10)), 4, 32)
         else if p \<in> {161, 162, 163, 164}
         then Some (-1 * UDPHDRLEN, False, 1 / of_int (2 ^ nat ((p mod 10) + 1)), 2, 32)
         else None)"

text \<open>The bit mode of the output before the second \<open>switch\<close>: that of the input, with
  4-bit data widened to 8 bits.\<close>
definition setup_default_bitmode :: "lofar_udp_meta \<Rightarrow> lofar_udp_meta" where
  "setup_default_bitmode m =
     (let m1 = m\<lparr>outputBitMode := inputBitMode m\<rparr>
      in if outputBitMode m1 = 4 then m1\<lparr>outputBitMode := 8\<rparr> else m1)"

text \<open>
  The tail of the function: the output length per packet, for the copying modes
  (\<open>equalIO\<close>) and for the others. In
  \<open>(numPorts * (hdrOffset + UDPHDRLEN)) + totalProcBeamlets * UDPNPOL
     * ((float) inputBitMode / 8.0) * UDPNTIMESLICE\<close>
  the literal \<open>8.0\<close> is a \<open>double\<close>, so the sum is computed in \<open>double\<close> and truncated
  on assignment to the \<open>int\<close> \<open>workingData\<close>. In
  \<open>(int) (workingData * ((float) outputBitMode / (float) inputBitMode) * mulFactor)\<close>
  every operand is a \<open>float\<close> or an \<open>int\<close>, so \<open>workingData\<close> is converted to \<open>float\<close>
  and the products are rounded to \<open>float\<close>.
\<close>
definition setup_output_lengths :: "lofar_udp_meta \<Rightarrow> int \<Rightarrow> bool \<Rightarrow> rat \<Rightarrow> lofar_udp_meta" where
  "setup_output_lengths m4 hdrOffset equalIO mulFactor =
     (if equalIO then
        m4\<lparr>packetOutputLength :=
             (\<lambda>port. if port < nat (numPorts m4)
                      then hdrOffset + portPacketLength m4 port
                      else packetOutputLength m4 port)\<rparr>
      else
        let bytesPerSample = c_double (c_float (of_int (inputBitMode m4)) / 8);
            samples = c_double (c_double (of_int (totalProcBeamlets m4 * UDPNPOL)) * bytesPerSample);
            payload = c_double (samples * c_double (of_int UDPNTIMESLICE));
            workingData1 =
              c_trunc (c_double (c_double (of_int (numPorts m4 * (hdrOffset + UDPHDRLEN)))
                                 + payload));
            ratio = c_float (c_float (of_int (outputBitMode m4))
                             / c_float (of_int (inputBitMode m4)));
            workingData2 =
              c_trunc (c_float (c_float (c_float (of_int workingData1) * ratio) * mulFactor));
            workingData3 = workingData2 sdiv numOutputs m4
        in m4\<lparr>packetOutputLength :=
                (\<lambda>out. if out < nat (numOutputs m4) then workingData3
                        else packetOutputLength m4 out)\<rparr>)"

definition lofar_udp_setup_processing :: "lofar_udp_meta \<Rightarrow> int \<times> lofar_udp_meta" where
  "lofar_udp_setup_processing m =
     (let m0 = (if 0 \<le> processingMode m \<and> processingMode m \<le> 1 \<and> calibrateData m \<noteq> 0
                then m\<lparr>calibrateData := 0\<rparr> else m)
      in if \<not> known_mode (processingMode m) then (1, m0)
         else
           let m2 = setup_default_bitmode m0
           in case mode_switch m2 of
                None \<Rightarrow> (1, m2)
              | Some (hdrOffset, equalIO, mulFactor, nOut, obm) \<Rightarrow>
                  let m3 = m2\<lparr>numOutputs := nOut, outputBitMode := obm\<rparr>;
                      m4 = (if calibrateData m3 = 1 then m3\<lparr>outputBitMode := 32\<rparr> else m3)
                  in (0, setup_output_lengths m4 hdrOffset equalIO mulFactor))"

text \<open>The size formula for the modes whose input and output lengths differ, as the spec
  states it: \<open>((numPorts * header_kept) + totalProcBeamlets * pols * bytesPerInputSample
  * timeslicesPerPacket) * (outputBits / inputBits) * scale / numOutputs\<close>.\<close>
definition spec_output_length ::
  "int \<Rightarrow> int \<Rightarrow> int \<Rightarrow> int \<Rightarrow> int \<Rightarrow> rat \<Rightarrow> int \<Rightarrow> rat"
where
  "spec_output_length nPorts headerKept procBeamlets inputBits outputBits scale nOut =
     (of_int (nPorts * headerKept)
        + of_int procBeamlets * of_int UDPNPOL * (of_int inputBits / 8) * of_int UDPNTIMESLICE)
       * (of_int outputBits / of_int inputBits) * scale / of_int nOut"

section \<open>Checking the configuration\<close>






section \<open>Parsing the headers\<close>

text \<open>
  The first header of a port, as the values \<open>lofar_udp_parse_headers\<close> reads from its 16
  bytes: the unsigned bytes and words at the \<open>CEP_HDR_*\<close> offsets, the station
  identifier and the bit fields of the source byte (\<open>lofar_source_bytes\<close>).
\<close>
record cep_header =
  hdr_rsp_version :: int
  hdr_timestamp :: int
  hdr_sequence :: int
  hdr_nbeamlets :: int
  hdr_ntimeslices :: int
  hdr_station_id :: int
  src_padding0 :: int
  src_errorBit :: int
  src_bitMode :: int
  src_padding1 :: int
  src_clockBit :: int

text \<open>What the function writes to standard error without failing.\<close>
datatype parse_warning =
    ReplayBitWarning nat
  | PacketLengthWarning nat nat

text \<open>A loop over the ports that may leave the function: \<open>Inl\<close> is the early
  \<open>return\<close>.\<close>
fun parse_loop :: "(nat \<Rightarrow> 's \<Rightarrow> 'e + 's) \<Rightarrow> nat list \<Rightarrow> 's \<Rightarrow> 'e + 's" where
  "parse_loop body [] s = Inr s"
| "parse_loop body (p # ps) s =
     (case body p s of Inl e \<Rightarrow> Inl e | Inr s' \<Rightarrow> parse_loop body ps s')"

text \<open>Body of the loop over the ports; \<open>Inl\<close> is \<open>return 1\<close>. The accumulator holds
  the warnings so far, \<open>cacheBitMode\<close> and the metadata.\<close>
definition parse_port ::
  "lofar_consts \<Rightarrow> (nat \<Rightarrow> cep_header) \<Rightarrow> int \<times> int \<Rightarrow> nat
     \<Rightarrow> parse_warning list \<times> int \<times> lofar_udp_meta
     \<Rightarrow> (parse_warning list \<times> lofar_udp_meta) + (parse_warning list \<times> int \<times> lofar_udp_meta)"
where
  "parse_port K header beamletLimits port acc =
     (case acc of (ws, cacheBitMode, m) \<Rightarrow>
        let h = header port in
        if hdr_rsp_version h < UDPCURVER K then Inl (ws, m)
        else if hdr_timestamp h < LFREPOCH K then Inl (ws, m)
        else if hdr_sequence h > RSPMAXSEQ K then Inl (ws, m)
        else if hdr_nbeamlets h > UDPMAXBEAM K then Inl (ws, m)
        else if hdr_ntimeslices h \<noteq> UDPNTIMESLICE then Inl (ws, m)
        else if src_padding0 h \<noteq> 0 then Inl (ws, m)
        else if src_errorBit h \<noteq> 0 then Inl (ws, m)
        else if src_bitMode h = 3 then Inl (ws, m)
        else if src_padding1 h > 1 then Inl (ws, m)
        else
          let ws1 = (if src_padding1 h = 1 then ws @ [ReplayBitWarning port] else ws) in
          if port \<noteq> 0 \<and> clockBit m \<noteq> src_clockBit h then Inl (ws1, m)
          else
            let raw = hdr_nbeamlets h;
                m1 = m\<lparr>clockBit := src_clockBit h,
                       stationID := hdr_station_id h sdiv 32,
                       portRawBeamlets := (portRawBeamlets m)(port := raw),
                       upperBeamlets := (upperBeamlets m)(port := raw),
                       portRawCumulativeBeamlets :=
                         (portRawCumulativeBeamlets m)(port := totalRawBeamlets m),
                       portCumulativeBeamlets :=
                         (portCumulativeBeamlets m)(port := totalProcBeamlets m)\<rparr>;
                lo = fst beamletLimits;
                hi = snd beamletLimits;
                m2 = (if hi \<noteq> 0 \<and> hi < (int port + 1) * raw \<and> hi \<ge> int port * raw
                      then m1\<lparr>upperBeamlets := (upperBeamlets m1)(port := hi - totalRawBeamlets m1)\<rparr>
                      else m1);
                m3 = (if lo \<noteq> 0 \<and> lo < (int port + 1) * raw \<and> lo \<ge> int port * raw
                      then m2\<lparr>baseBeamlets := (baseBeamlets m2)(port := lo - totalRawBeamlets m2),
                              totalProcBeamlets := totalProcBeamlets m2 + (upperBeamlets m2 port - lo)\<rparr>
                      else m2\<lparr>baseBeamlets := (baseBeamlets m2)(port := 0),
                              totalProcBeamlets := totalProcBeamlets m2 + upperBeamlets m2 port\<rparr>);
                m4 = m3\<lparr>totalRawBeamlets := totalRawBeamlets m3 + raw\<rparr>
            in if src_bitMode h \<noteq> 0 \<and> src_bitMode h \<noteq> 1 \<and> src_bitMode h \<noteq> 2
               then Inl (ws1, m4)
               else
                 let m5 = m4\<lparr>inputBitMode := (if src_bitMode h = 0 then 16
                                                else if src_bitMode h = 1 then 8 else 4)\<rparr>;
                     cache' = (if port = 0 then inputBitMode m5 else cacheBitMode)
                 in if port \<noteq> 0 \<and> cacheBitMode \<noteq> inputBitMode m5 then Inl (ws1, m5)
                    else
                      let bitMul = (1 :: rat) - (if inputBitMode m5 = 4 then 1 / 2 else 0)
                                     + (if inputBitMode m5 = 16 then 1 else 0);
                          len = c_trunc (of_int UDPHDRLEN
                                  + of_int raw * bitMul * of_int UDPNTIMESLICE * of_int UDPNPOL);
                          m6 = m5\<lparr>portPacketLength := (portPacketLength m5)(port := len)\<rparr>;
                          ws2 = (if port > 1 \<and> portPacketLength m6 port \<noteq> portPacketLength m6 (port - 1)
                                 then ws1 @ [PacketLengthWarning port (port - 1)] else ws1)
                      in Inr (ws2, cache', m6))"

text \<open>\<open>lofar_udp_parse_headers\<close>: the return code, the warnings and the metadata.\<close>
definition lofar_udp_parse_headers ::
  "lofar_consts \<Rightarrow> lofar_udp_meta \<Rightarrow> (nat \<Rightarrow> cep_header) \<Rightarrow> int \<times> int
     \<Rightarrow> int \<times> parse_warning list \<times> lofar_udp_meta"
where
  "lofar_udp_parse_headers K m header beamletLimits =
     (case parse_loop (parse_port K header beamletLimits) (ports m)
             ([], 0, m\<lparr>totalRawBeamlets := 0, totalProcBeamlets := 0\<rparr>) of
        Inr (ws, cache, m') \<Rightarrow> (0, ws, m')
      | Inl (ws, m') \<Rightarrow> (1, ws, m'))"

section \<open>A small reader used in the examples\<close>

text \<open>
  One port of header-only packets (16 bytes), a window of four packets. Every byte of a
  packet holds the low byte of its number, and the example packet numbering reads it
  from the first byte of the header.
\<close>
definition ex_pn :: get_packet_number where
  "ex_pn b off = 2000000000 + uint (b off)"

definition ex_K :: lofar_consts where
  "ex_K = \<lparr>UDPCURVER = 3, LFREPOCH = 1199145600, RSPMAXSEQ = 195313, UDPMAXBEAM = 244\<rparr>"

definition ex_window :: "int \<Rightarrow> buffer" where
  "ex_window a = (\<lambda>i. word_of_int (a + i div 16))"

definition ex_file :: "int \<Rightarrow> nat \<Rightarrow> byte list" where
  "ex_file a n = map (\<lambda>j. word_of_int (a + int j div 16)) [0..<16 * n]"

definition ex_meta :: lofar_udp_meta where
  "ex_meta = \<lparr>inputData = (\<lambda>p. ex_window 100), numPorts = 1, replayDroppedPackets = 0,
     processingMode = 0, calibrateData = 0, calibrationStep = 0, totalRawBeamlets = 0,
     totalProcBeamlets = 0, clockBit = 1, stationID = 0, inputBitMode = 8, outputBitMode = 8,
     numOutputs = 1, portRawBeamlets = (\<lambda>p. 0), upperBeamlets = (\<lambda>p. 0),
     baseBeamlets = (\<lambda>p. 0), portRawCumulativeBeamlets = (\<lambda>p. 0),
     portCumulativeBeamlets = (\<lambda>p. 0), portPacketLength = (\<lambda>p. 16),
     packetOutputLength = (\<lambda>p. 16), inputDataOffset = (\<lambda>p. 0),
     portLastDroppedPackets = (\<lambda>p. 0), portTotalDroppedPackets = (\<lambda>p. 0),
     packetsPerIteration = 4, packetsRead = 0, packetsReadMax = 4,
     lastPacket = 2000000099, leadingPacket = 2000000100, inputDataReady = 0,
     outputDataReady = 1\<rparr>"

definition ex_reader :: "(nat \<Rightarrow> byte list) lofar_udp_reader" where
  "ex_reader = \<lparr>input = \<lparr>readerType = NORMAL, decompressionTracker_pos = (\<lambda>p. 0),
                          transport = (\<lambda>p. ex_file 104 8)\<rparr>,
                input_null = False, meta = ex_meta, calibrationStepsGenerated = 0,
                reader_packetsPerIteration = 4, ompThreads = 8\<rparr>"

section \<open>Frame conditions\<close>

text \<open>The fields that neither a shift nor a transport read writes.\<close>
definition same_control :: "'io lofar_udp_reader \<Rightarrow> 'io lofar_udp_reader \<Rightarrow> bool" where
  "same_control r r' \<longleftrightarrow>
     packetsRead (meta r') = packetsRead (meta r)
     \<and> packetsReadMax (meta r') = packetsReadMax (meta r)
     \<and> numPorts (meta r') = numPorts (meta r)
     \<and> lastPacket (meta r') = lastPacket (meta r)
     \<and> portPacketLength (meta r') = portPacketLength (meta r)
     \<and> portLastDroppedPackets (meta r') = portLastDroppedPackets (meta r)
     \<and> replayDroppedPackets (meta r') = replayDroppedPackets (meta r)
     \<and> reader_packetsPerIteration r' = reader_packetsPerIteration r
     \<and> input_null r' = input_null r"

definition precheck_rel ::
  "int \<times> bool \<times> 'io lofar_udp_reader \<Rightarrow> int \<times> bool \<times> 'io lofar_udp_reader \<Rightarrow> bool" where
  "precheck_rel a b \<longleftrightarrow>
     same_control (snd (snd a)) (snd (snd b))
     \<and> packetsPerIteration (meta (snd (snd b))) = packetsPerIteration (meta (snd (snd a)))"

definition shift_rel :: "int \<times> 'io lofar_udp_reader \<Rightarrow> int \<times> 'io lofar_udp_reader \<Rightarrow> bool" where
  "shift_rel a b \<longleftrightarrow>
     same_control (snd a) (snd b)
     \<and> packetsPerIteration (meta (snd b)) = packetsPerIteration (meta (snd a))
     \<and> (fst a \<le> 0 \<longrightarrow> fst b \<le> 0)"


text \<open>A kernel and a calibration routine that succeed and change nothing, and a
  configuration for one port.\<close>
definition ex_kern :: "lofar_udp_meta \<Rightarrow> int \<times> lofar_udp_meta" where
  "ex_kern m = (0, m)"

definition ex_calib :: "(nat \<Rightarrow> byte list) lofar_udp_reader \<Rightarrow> int \<times> (nat \<Rightarrow> byte list) lofar_udp_reader" where
  "ex_calib r = (0, r)"


text \<open>The mode identifiers of the spec's table: the Stokes modes with time decimation,
  and the whole closed set.\<close>
definition decimated_stokes_modes :: "int set" where
  "decimated_stokes_modes = {101, 102, 103, 104, 111, 112, 113, 114,
                             121, 122, 123, 124, 131, 132, 133, 134}"

definition enumerated_modes :: "int set" where
  "enumerated_modes = {0, 1, 2, 10, 11, 20, 21, 30, 31, 32,
                       100, 101, 102, 103, 104, 110, 111, 112, 113, 114,
                       120, 121, 122, 123, 124, 130, 131, 132, 133, 134,
                       150, 151, 152, 153, 154, 160, 161, 162, 163, 164}"

text \<open>Headers for the examples: version 3, 8-bit samples, 200 MHz clock.\<close>
definition ex_header :: "int \<Rightarrow> cep_header" where
  "ex_header beamlets =
     \<lparr>hdr_rsp_version = 3, hdr_timestamp = 1600000000, hdr_sequence = 0,
      hdr_nbeamlets = beamlets, hdr_ntimeslices = 16, hdr_station_id = 6400,
      src_padding0 = 0, src_errorBit = 0, src_bitMode = 1, src_padding1 = 0, src_clockBit = 1\<rparr>"

definition ex_headers2 :: "nat \<Rightarrow> cep_header" where
  "ex_headers2 port = (if port = 1 then ex_header 61 else ex_header 122)"

text \<open>What the shift of one port depends on.\<close>
definition same_port_view :: "nat \<Rightarrow> 'io lofar_udp_reader \<Rightarrow> 'io lofar_udp_reader \<Rightarrow> bool" where
  "same_port_view p r r' \<longleftrightarrow>
     inputData (meta r') p = inputData (meta r) p
     \<and> portPacketLength (meta r') p = portPacketLength (meta r) p
     \<and> packetsPerIteration (meta r') = packetsPerIteration (meta r)
     \<and> reader_packetsPerIteration r' = reader_packetsPerIteration r
     \<and> replayDroppedPackets (meta r') = replayDroppedPackets (meta r)
     \<and> readerType (input r') = readerType (input r)
     \<and> decompressionTracker_pos (input r') p = decompressionTracker_pos (input r) p"


text \<open>No port of a compressed reader has decompressed beyond its window.\<close>
definition no_overshoot :: "'io lofar_udp_reader \<Rightarrow> bool" where
  "no_overshoot r \<longleftrightarrow>
     (readerType (input r) = ZSTDCOMPRESSED \<longrightarrow>
        (\<forall>q \<in> set (ports (meta r)).
           decompressionTracker_pos (input r) q
             \<le> portPacketLength (meta r) q * packetsPerIteration (meta r)))"










text \<open>
  Short reads in a read step. The read of a port comes back short when the transport
  returns fewer bytes than were requested; \<open>short_read\<close> says that this happens for some
  port of a step, each port being read in the state the ports before it have left.
\<close>
definition port_reads_short :: "'io io_read \<Rightarrow> nat \<Rightarrow> 'io lofar_udp_reader \<Rightarrow> bool" where
  "port_reads_short rd port r \<longleftrightarrow>
     (let m = meta r;
          charsToRead = (packetsPerIteration m - portLastDroppedPackets m port)
                          * portPacketLength m port
      in portLastDroppedPackets m port \<le> packetsPerIteration m
         \<and> fst (rd (input r) port (inputData m port) (inputDataOffset m port) charsToRead)
             < charsToRead)"

fun any_short :: "'io io_read \<Rightarrow> nat list \<Rightarrow> int \<times> 'io lofar_udp_reader \<Rightarrow> bool" where
  "any_short rd [] acc = False"
| "any_short rd (p # ps) acc =
     (port_reads_short rd p (snd acc) \<or> any_short rd ps (read_port rd p acc))"

definition short_read :: "'io io_read \<Rightarrow> 'io lofar_udp_reader \<Rightarrow> bool" where
  "short_read rd r \<longleftrightarrow>
     (let r1 = r\<lparr>meta := (meta r)\<lparr>packetsPerIteration := reader_packetsPerIteration r\<rparr>\<rparr>;
          r2 = snd (lofar_udp_shift_remainder_packets r1 (portLastDroppedPackets (meta r1)) 1);
          acc = read_step_cap r2
      in any_short rd (ports (meta (snd acc))) acc)"

text \<open>The example reader with a file of two packets only: its next read is short.\<close>
definition ex_short_reader :: "(nat \<Rightarrow> byte list) lofar_udp_reader" where
  "ex_short_reader = ex_reader\<lparr>input := (input ex_reader)\<lparr>transport := (\<lambda>p. ex_file 104 2)\<rparr>\<rparr>"

section \<open>Properties of a read step\<close>

text \<open>
  C10. When \<open>lofar_udp_reader_read_step\<close> is entered with
  \<open>meta->packetsPerIteration == 0\<close> it returns the fatal code 1 at once: no shift and no
  read happens, and the reader (buffers, offsets, counters) is unchanged.
\<close>
theorem read_step_zero_window:
  "packetsPerIteration (meta r) = 0 \<Longrightarrow> lofar_udp_reader_read_step rd r = (1, r)"
  by (simp add: lofar_udp_reader_read_step_def)

theorem read_step_zero_window_witness:
  "packetsPerIteration (meta (ex_reader\<lparr>meta := ex_meta\<lparr>packetsPerIteration := 0\<rparr>\<rparr>)) = 0
   \<and> lofar_udp_reader_read_step reader_nchars_NORMAL
        (ex_reader\<lparr>meta := ex_meta\<lparr>packetsPerIteration := 0\<rparr>\<rparr>)
      = (1, ex_reader\<lparr>meta := ex_meta\<lparr>packetsPerIteration := 0\<rparr>\<rparr>)"
  using read_step_zero_window
          [of "ex_reader\<lparr>meta := ex_meta\<lparr>packetsPerIteration := 0\<rparr>\<rparr>" reader_nchars_NORMAL]
  by simp

lemma fold_rel:
  assumes "\<And>s. R s s" and "\<And>a b c. R a b \<Longrightarrow> R b c \<Longrightarrow> R a c" and "\<And>x s. R s (f x s)"
  shows "R s (fold f xs s)"
proof (induction xs arbitrary: s)
  case Nil
  show ?case by (simp add: assms(1))
next
  case (Cons x xs)
  have "R s (f x s)" by (rule assms(3))
  moreover have "R (f x s) (fold f xs (f x s))" by (rule Cons.IH)
  ultimately have "R s (fold f xs (f x s))" by (rule assms(2))
  then show ?case by simp
qed


lemma same_control_refl: "same_control r r"
  by (simp add: same_control_def)

lemma same_control_trans: "same_control a b \<Longrightarrow> same_control b c \<Longrightarrow> same_control a c"
  by (simp add: same_control_def)

lemma precheck_step: "precheck_rel acc (shift_precheck_port sp p acc)"
  by (cases acc) (simp add: precheck_rel_def shift_precheck_port_def same_control_def Let_def)

lemma precheck_fold: "precheck_rel acc (fold (shift_precheck_port sp) ps acc)"
  by (rule fold_rel) (auto simp: precheck_rel_def same_control_def precheck_step [unfolded precheck_rel_def same_control_def])

lemma shift_port_step: "shift_rel acc (shift_port sp hp fb p acc)"
  by (cases acc) (simp add: shift_rel_def shift_port_def same_control_def Let_def)

lemma shift_port_fold: "shift_rel acc (fold (shift_port sp hp fb) ps acc)"
  by (rule fold_rel) (auto simp: shift_rel_def same_control_def shift_port_step [unfolded shift_rel_def same_control_def])

lemma shift_remainder_frame:
  assumes "lofar_udp_shift_remainder_packets r sp hp = (rv, r')"
  shows "same_control r r'"
    and "packetsPerIteration (meta r') = packetsPerIteration (meta r)"
    and "rv \<le> 0"
proof -
  obtain t f r1 where pre: "fold (shift_precheck_port sp) (ports (meta r)) (0, False, r) = (t, f, r1)"
    by (metis prod_cases3)
  have p1: "precheck_rel (0, False, r) (t, f, r1)"
    using precheck_fold [of "(0, False, r)" sp "ports (meta r)"] pre by simp
  have s1: "shift_rel (0, r1) (fold (shift_port sp hp f) (ports (meta r1)) (0, r1))"
    by (rule shift_port_fold)
  have res: "(rv, r') = (if t < 1 \<and> \<not> f then (0, r1)
                         else fold (shift_port sp hp f) (ports (meta r1)) (0, r1))"
    using assms pre by (simp add: lofar_udp_shift_remainder_packets_def)
  have "shift_rel (0, r1) (rv, r')"
  proof (cases "t < 1 \<and> \<not> f")
    case True
    then show ?thesis using res by (simp add: shift_rel_def same_control_def)
  next
    case False
    then have "(rv, r') = fold (shift_port sp hp f) (ports (meta r1)) (0, r1)"
      using res by (simp only: if_False)
    then show ?thesis using s1 by simp
  qed
  with p1 show "same_control r r'"
    and "packetsPerIteration (meta r') = packetsPerIteration (meta r)"
    and "rv \<le> 0"
    by (simp_all add: precheck_rel_def shift_rel_def same_control_def)
qed



lemma read_port_short:
  "port_reads_short rd p (snd acc) \<Longrightarrow> fst (read_port rd p acc) = - 3"
  by (cases acc) (auto simp: read_port_def port_reads_short_def Let_def split: prod.splits)

lemma read_port_full:
  "\<not> port_reads_short rd p (snd acc) \<Longrightarrow>
     fst (read_port rd p acc) = fst acc
     \<and> packetsPerIteration (meta (snd (read_port rd p acc))) = packetsPerIteration (meta (snd acc))"
  by (cases acc) (auto simp: read_port_def port_reads_short_def Let_def split: prod.splits)

lemma read_port_sticky: "fst acc = - 3 \<Longrightarrow> fst (read_port rd p acc) = - 3"
  by (cases acc) (auto simp: read_port_def Let_def split: prod.splits)

lemma read_fold_sticky: "fst acc = - 3 \<Longrightarrow> fst (fold (read_port rd) ps acc) = - 3"
  by (induction ps arbitrary: acc) (simp_all add: read_port_sticky)

lemma any_short_fold:
  "fst (fold (read_port rd) ps acc) = (if any_short rd ps acc then - 3 else fst acc)
   \<and> (\<not> any_short rd ps acc \<longrightarrow>
        packetsPerIteration (meta (snd (fold (read_port rd) ps acc)))
          = packetsPerIteration (meta (snd acc)))"
proof (induction ps arbitrary: acc)
  case Nil
  show ?case by simp
next
  case (Cons p ps)
  show ?case
  proof (cases "port_reads_short rd p (snd acc)")
    case True
    then have "fst (read_port rd p acc) = - 3" by (rule read_port_short)
    then have "fst (fold (read_port rd) ps (read_port rd p acc)) = - 3" by (rule read_fold_sticky)
    then show ?thesis using True by simp
  next
    case False
    note f = read_port_full [OF False]
    show ?thesis using Cons.IH [of "read_port rd p acc"] f False by simp
  qed
qed

text \<open>
  C2 (as amended). Every invocation of \<open>lofar_udp_reader_read_step\<close> that passes the
  entry check returns \<open>-3\<close> when some port reads short; otherwise it returns the cap
  result \<open>-2\<close> exactly when \<open>packetsRead + packetsPerIteration \<ge> packetsReadMax\<close>, with
  \<open>packetsPerIteration\<close> the configured window, and 0 when the sum is below the cap.
  When no port reads short the window is left at the remaining budget
  \<open>packetsReadMax - packetsRead\<close> in the first case and at the configured value in the
  second.
\<close>
theorem read_step_cap_flag:
  assumes "packetsPerIteration (meta r) \<noteq> 0"
    and "lofar_udp_reader_read_step rd r = (rv, r')"
  shows "rv = (if short_read rd r then - 3
               else if packetsRead (meta r) + reader_packetsPerIteration r \<ge> packetsReadMax (meta r)
               then - 2 else 0)
       \<and> (\<not> short_read rd r \<longrightarrow>
            packetsPerIteration (meta r')
              = (if packetsRead (meta r) + reader_packetsPerIteration r \<ge> packetsReadMax (meta r)
                 then packetsReadMax (meta r) - packetsRead (meta r)
                 else reader_packetsPerIteration r))"
proof -
  define r1 where "r1 = r\<lparr>meta := (meta r)\<lparr>packetsPerIteration := reader_packetsPerIteration r\<rparr>\<rparr>"
  obtain sv r2 where sh: "lofar_udp_shift_remainder_packets r1 (portLastDroppedPackets (meta r1)) 1 = (sv, r2)"
    by (metis surj_pair)
  have f2: "same_control r1 r2" "packetsPerIteration (meta r2) = packetsPerIteration (meta r1)" "sv \<le> 0"
    using shift_remainder_frame [OF sh] by auto
  obtain cv r3 where cap: "read_step_cap r2 = (cv, r3)" by (metis surj_pair)
  obtain fv r4 where rdf: "fold (read_port rd) (ports (meta r3)) (cv, r3) = (fv, r4)" by (metis surj_pair)
  have res: "rv = fv" "r' = r4\<lparr>meta := (meta r4)\<lparr>inputDataReady := 1\<rparr>\<rparr>"
    using assms(1,2) sh f2(3) cap rdf
    by (simp_all add: lofar_udp_reader_read_step_def r1_def [symmetric] Let_def)
  have sr: "short_read rd r \<longleftrightarrow> any_short rd (ports (meta r3)) (cv, r3)"
    using sh cap by (simp add: short_read_def r1_def [symmetric] Let_def)
  have fo: "fv = (if short_read rd r then - 3 else cv)"
    "\<not> short_read rd r \<Longrightarrow> packetsPerIteration (meta r4) = packetsPerIteration (meta r3)"
    using any_short_fold [of rd "ports (meta r3)" "(cv, r3)"] rdf sr by simp_all
  have c2: "packetsRead (meta r2) = packetsRead (meta r)" "packetsReadMax (meta r2) = packetsReadMax (meta r)"
    "packetsPerIteration (meta r2) = reader_packetsPerIteration r"
    using f2 by (simp_all add: same_control_def r1_def)
  have cvv: "cv = (if packetsRead (meta r) + reader_packetsPerIteration r \<ge> packetsReadMax (meta r)
                   then - 2 else 0)"
    "packetsPerIteration (meta r3)
       = (if packetsRead (meta r) + reader_packetsPerIteration r \<ge> packetsReadMax (meta r)
          then packetsReadMax (meta r) - packetsRead (meta r)
          else reader_packetsPerIteration r)"
    using cap c2 by (auto simp: read_step_cap_def Let_def split: if_splits)
  show ?thesis
    using fo cvv res by simp
qed

lemma ex_step_full: "\<not> short_read reader_nchars_NORMAL ex_reader"
  by (simp add: short_read_def port_reads_short_def ex_reader_def ex_meta_def ports_def
        lofar_udp_shift_remainder_packets_def shift_precheck_port_def read_step_cap_def
        reader_nchars_NORMAL_def ex_file_def Let_def)

lemma ex_step_short: "short_read reader_nchars_NORMAL ex_short_reader"
  by (simp add: short_read_def port_reads_short_def ex_short_reader_def ex_reader_def ex_meta_def ports_def
        lofar_udp_shift_remainder_packets_def shift_precheck_port_def read_step_cap_def
        reader_nchars_NORMAL_def ex_file_def Let_def)

theorem read_step_cap_flag_witness:
  "packetsPerIteration (meta ex_reader) \<noteq> 0
   \<and> \<not> short_read reader_nchars_NORMAL ex_reader
   \<and> packetsRead (meta ex_reader) + reader_packetsPerIteration ex_reader
       \<ge> packetsReadMax (meta ex_reader)
   \<and> fst (lofar_udp_reader_read_step reader_nchars_NORMAL ex_reader) = - 2
   \<and> packetsPerIteration (meta (snd (lofar_udp_reader_read_step reader_nchars_NORMAL ex_reader)))
       = packetsReadMax (meta ex_reader) - packetsRead (meta ex_reader)
   \<and> packetsPerIteration (meta ex_short_reader) \<noteq> 0
   \<and> short_read reader_nchars_NORMAL ex_short_reader
   \<and> fst (lofar_udp_reader_read_step reader_nchars_NORMAL ex_short_reader) = - 3"
proof -
  have h: "packetsPerIteration (meta ex_reader) \<noteq> 0"
    by (simp add: ex_reader_def ex_meta_def)
  have hs: "packetsPerIteration (meta ex_short_reader) \<noteq> 0"
    by (simp add: ex_short_reader_def ex_reader_def ex_meta_def)
  have e: "lofar_udp_reader_read_step reader_nchars_NORMAL ex_reader
             = (fst (lofar_udp_reader_read_step reader_nchars_NORMAL ex_reader),
                snd (lofar_udp_reader_read_step reader_nchars_NORMAL ex_reader))"
    by simp
  have es: "lofar_udp_reader_read_step reader_nchars_NORMAL ex_short_reader
             = (fst (lofar_udp_reader_read_step reader_nchars_NORMAL ex_short_reader),
                snd (lofar_udp_reader_read_step reader_nchars_NORMAL ex_short_reader))"
    by simp
  have c: "packetsRead (meta ex_reader) + reader_packetsPerIteration ex_reader
       \<ge> packetsReadMax (meta ex_reader)"
    "packetsReadMax (meta ex_reader) - packetsRead (meta ex_reader) = 4"
    by (simp_all add: ex_reader_def ex_meta_def)
  show ?thesis
    using read_step_cap_flag [OF h e] read_step_cap_flag [OF hs es] ex_step_full ex_step_short h hs c
    by simp
qed

text \<open>
  The claim as stated asks for the cap result exactly when
  \<open>packetsRead + packetsPerIteration > packetsReadMax\<close>. With no packet read yet, a window
  of 4 and a cap of 4 the sum equals the cap, and the step still returns \<open>-2\<close>.
\<close>
theorem read_step_cap_counterexample:
  "fst (lofar_udp_reader_read_step reader_nchars_NORMAL ex_reader) = -2
   \<and> \<not> (packetsRead (meta ex_reader) + reader_packetsPerIteration ex_reader
           > packetsReadMax (meta ex_reader))"
  by (simp add: lofar_udp_reader_read_step_def ex_reader_def ex_meta_def ports_def
      lofar_udp_shift_remainder_packets_def shift_precheck_port_def read_step_cap_def
      read_port_def reader_nchars_NORMAL_def ex_file_def Let_def)

section \<open>Properties of a step\<close>

text \<open>
  C9. A call of \<open>lofar_udp_reader_step_timed\<close> that does not end with a fatal code
  (a value above 0) returns the minimum of the value of the read phase and the value of
  the processing phase, so a tolerable negative result of either phase reaches the
  caller even when the other phase gives 0. (\<open>lofar_udp_reader_calibration\<close> returns 0
  or 1, never a negative value, which is the third hypothesis.)
\<close>
theorem step_timed_min:
  assumes "lofar_udp_reader_step_timed calib rd kern r = (rv, r')"
    and "rv \<le> 0"
    and "0 \<le> fst (calib r)"
  shows "rv = min (fst (step_read_phase rd (snd (step_calibration calib r))))
                  (fst (step_process_phase kern
                          (snd (step_read_phase rd (snd (step_calibration calib r))))))
         \<and> r' = snd (step_process_phase kern
                          (snd (step_read_phase rd (snd (step_calibration calib r)))))"
proof -
  have "\<not> fst (step_calibration calib r)"
    using assms(3) by (cases "calib r") (simp add: step_calibration_def)
  then obtain r0 where c: "step_calibration calib r = (False, r0)"
    by (cases "step_calibration calib r") simp
  obtain rr r1 where rp: "step_read_phase rd r0 = (rr, r1)" by (metis surj_pair)
  obtain sr r2 where pp: "step_process_phase kern r1 = (sr, r2)" by (metis surj_pair)
  show ?thesis
    using assms(1,2) c rp pp
    by (auto simp: lofar_udp_reader_step_timed_def min_def split: if_splits)
qed

theorem step_timed_min_witness:
  "fst (lofar_udp_reader_step_timed ex_calib reader_nchars_NORMAL ex_kern ex_reader) = -2
   \<and> fst (step_read_phase reader_nchars_NORMAL (snd (step_calibration ex_calib ex_reader))) = -2
   \<and> fst (step_process_phase ex_kern
            (snd (step_read_phase reader_nchars_NORMAL (snd (step_calibration ex_calib ex_reader))))) = 0"
proof -
  have c: "step_calibration ex_calib ex_reader = (False, ex_reader)"
    by (simp add: step_calibration_def ex_reader_def ex_meta_def)
  have v: "fst (lofar_udp_reader_read_step reader_nchars_NORMAL ex_reader) = -2"
    by (simp add: lofar_udp_reader_read_step_def ex_reader_def ex_meta_def ports_def
        lofar_udp_shift_remainder_packets_def shift_precheck_port_def read_step_cap_def
        read_port_def reader_nchars_NORMAL_def ex_file_def Let_def)
  have w: "packetsPerIteration (meta (snd (lofar_udp_reader_read_step reader_nchars_NORMAL ex_reader))) = 4"
    by (simp add: lofar_udp_reader_read_step_def ex_reader_def ex_meta_def ports_def
        lofar_udp_shift_remainder_packets_def shift_precheck_port_def read_step_cap_def
        read_port_def reader_nchars_NORMAL_def ex_file_def Let_def)
  have st: "inputDataReady (meta ex_reader) \<noteq> 1 \<and> outputDataReady (meta ex_reader) \<noteq> 0"
    by (simp add: ex_reader_def ex_meta_def)
  obtain x where rs: "lofar_udp_reader_read_step reader_nchars_NORMAL ex_reader = (-2, x)"
    using v by (cases "lofar_udp_reader_read_step reader_nchars_NORMAL ex_reader") simp
  have xw: "packetsPerIteration (meta x) = 4" using w rs by simp
  have rpe: "step_read_phase reader_nchars_NORMAL ex_reader
               = (-2, x\<lparr>meta := (meta x)\<lparr>leadingPacket := lastPacket (meta x) + 1,
                                          outputDataReady := 0\<rparr>\<rparr>)"
    using st rs by (simp add: step_read_phase_def)
  have rp: "fst (step_read_phase reader_nchars_NORMAL ex_reader) = -2"
    using rpe by simp
  have pp: "fst (step_process_phase ex_kern (snd (step_read_phase reader_nchars_NORMAL ex_reader))) = 0"
    using rpe xw by (simp add: step_process_phase_def ex_kern_def)
  have e: "lofar_udp_reader_step_timed ex_calib reader_nchars_NORMAL ex_kern ex_reader
           = (fst (lofar_udp_reader_step_timed ex_calib reader_nchars_NORMAL ex_kern ex_reader),
              snd (lofar_udp_reader_step_timed ex_calib reader_nchars_NORMAL ex_kern ex_reader))"
    by simp
  have nf: "fst (lofar_udp_reader_step_timed ex_calib reader_nchars_NORMAL ex_kern ex_reader) \<le> 0"
    using c rp pp
    by (auto simp: lofar_udp_reader_step_timed_def split: prod.splits if_splits)
  have h: "0 \<le> fst (ex_calib ex_reader)" by (simp add: ex_calib_def)
  show ?thesis
    using step_timed_min [OF e nf h] c rp pp by simp
qed

section \<open>Properties of the configuration check\<close>




section \<open>Properties of the alignment\<close>

text \<open>
  C4. If on some port the packet at buffer index 0 has a number strictly above the
  target, \<open>lofar_udp_skip_to_packet\<close> returns the fatal code 1 and the reader is
  unchanged: no window was advanced or shifted.
\<close>
theorem skip_target_in_past:
  assumes "port < nat (numPorts (meta r))"
    and "pn (inputData (meta r) port) 0 > lastPacket (meta r)"
  shows "lofar_udp_skip_to_packet fuel pn rd r = Some (1, r)"
proof -
  have "port \<in> set (ports (meta r))" using assms(1) by (simp add: ports_def)
  then have "list_ex (\<lambda>p. pn (inputData (meta r) p) 0 > lastPacket (meta r)) (ports (meta r))"
    using assms(2) by (auto simp: list_ex_iff)
  then show ?thesis by (simp add: lofar_udp_skip_to_packet_def Let_def)
qed

theorem skip_target_in_past_witness:
  "(0::nat) < nat (numPorts (meta ex_reader))
   \<and> ex_pn (inputData (meta ex_reader) 0) 0 > lastPacket (meta ex_reader)
   \<and> lofar_udp_skip_to_packet 5 ex_pn reader_nchars_NORMAL ex_reader = Some (1, ex_reader)"
proof -
  have a: "(0::nat) < nat (numPorts (meta ex_reader))" by (simp add: ex_reader_def ex_meta_def)
  have b: "ex_pn (inputData (meta ex_reader) 0) 0 > lastPacket (meta ex_reader)"
    by (simp add: ex_reader_def ex_meta_def ex_pn_def ex_window_def)
  show ?thesis using skip_target_in_past [where port = 0 and r = ex_reader and pn = ex_pn and fuel = 5
                                  and rd = reader_nchars_NORMAL] a b by simp
qed

section \<open>Properties of the kernel selection\<close>

lemma c_trunc_of_int: "c_trunc (of_int n) = n"
  by (simp add: c_trunc_def)

lemma range2: "(a \<le> p \<and> p \<le> a + 1) \<longleftrightarrow> (p = a \<or> p = a + 1)" for a p :: int
  by arith

lemma range3: "(a \<le> p \<and> p \<le> a + 2) \<longleftrightarrow> (p = a \<or> p = a + 1 \<or> p = a + 2)" for a p :: int
  by arith

lemma range5:
  "(a \<le> p \<and> p \<le> a + 4) \<longleftrightarrow> (p = a \<or> p = a + 1 \<or> p = a + 2 \<or> p = a + 3 \<or> p = a + 4)"
  for a p :: int
  by arith

lemma known_mode_enumerated: "known_mode p \<longleftrightarrow> p \<in> enumerated_modes"
proof -
  have "known_mode p \<longleftrightarrow>
     (p = 0 \<or> p = 1) \<or> p = 2 \<or> (p = 10 \<or> p = 11) \<or> (p = 20 \<or> p = 21)
     \<or> (p = 30 \<or> p = 31 \<or> p = 32)
     \<or> (p = 100 \<or> p = 101 \<or> p = 102 \<or> p = 103 \<or> p = 104)
     \<or> (p = 110 \<or> p = 111 \<or> p = 112 \<or> p = 113 \<or> p = 114)
     \<or> (p = 120 \<or> p = 121 \<or> p = 122 \<or> p = 123 \<or> p = 124)
     \<or> (p = 130 \<or> p = 131 \<or> p = 132 \<or> p = 133 \<or> p = 134)
     \<or> (p = 150 \<or> p = 151 \<or> p = 152 \<or> p = 153 \<or> p = 154)
     \<or> (p = 160 \<or> p = 161 \<or> p = 162 \<or> p = 163 \<or> p = 164)"
    unfolding known_mode_def
    using range2 [of 0 p] range2 [of 10 p] range2 [of 20 p] range3 [of 30 p]
      range5 [of 100 p] range5 [of 110 p] range5 [of 120 p] range5 [of 130 p]
      range5 [of 150 p] range5 [of 160 p]
    by simp
  also have "\<dots> \<longleftrightarrow> p \<in> enumerated_modes"
    unfolding enumerated_modes_def by (simp only: insert_iff empty_iff) blast
  finally show ?thesis .
qed

lemma setup_reject: "processingMode m \<notin> enumerated_modes \<Longrightarrow> fst (lofar_udp_setup_processing m) = 1"
  by (simp add: lofar_udp_setup_processing_def known_mode_enumerated Let_def)

lemma mode_switch_decimated:
  assumes "processingMode m \<in> decimated_stokes_modes"
  shows "mode_switch m = Some (- UDPHDRLEN, False, 1 / of_int (2 ^ nat ((processingMode m mod 10) + 2)), 1, 32)"
  using assms unfolding decimated_stokes_modes_def mode_switch_def Let_def
  by auto


lemma c_trunc_scaled: "c_trunc (of_int a * numeral n) = a * numeral n"
  using c_trunc_of_int [of "a * numeral n"] by simp

lemma decimated_mod:
  assumes "p \<in> decimated_stokes_modes"
  shows "p mod 10 = 1 \<or> p mod 10 = 2 \<or> p mod 10 = 3 \<or> p mod 10 = 4"
  using assms unfolding decimated_stokes_modes_def by auto

lemma decimated_known: "p \<in> decimated_stokes_modes \<Longrightarrow> known_mode p"
  by (auto simp: known_mode_enumerated enumerated_modes_def decimated_stokes_modes_def)

lemma decimated_not_copy: "p \<in> decimated_stokes_modes \<Longrightarrow> 1 < p"
  unfolding decimated_stokes_modes_def by auto


lemma ilog2_bounds:
  assumes "0 < x"
  shows "power_int 2 (ilog2 x) \<le> x" and "x < power_int 2 (ilog2 x + 1)"
proof -
  have "power_int 2 (ilog2 x) \<le> x \<and> x < power_int 2 (ilog2 x + 1)"
  proof (cases "1 \<le> x")
    case True
    define n where "n = \<lfloor>x\<rfloor>"
    have n1: "1 \<le> n" using True by (simp add: n_def le_floor_iff)
    then have n0: "0 < n" by simp
    define b where "b = bitlen n"
    have bb: "2 ^ nat (b - 1) \<le> n" "n < 2 ^ nat b"
      using bitlen_bounds [OF n0] by (simp_all add: b_def)
    have b1: "1 \<le> b"
    proof (rule ccontr)
      assume "\<not> 1 \<le> b"
      then have "nat b = 0" by simp
      then show False using bb(2) n1 by simp
    qed
    have il: "ilog2 x = b - 1" using True by (simp add: ilog2_def b_def n_def)
    have lo: "(2::rat) ^ nat (b - 1) \<le> x"
    proof -
      have "(of_int (2 ^ nat (b - 1)) :: rat) \<le> of_int n" using bb(1) by (simp only: of_int_le_iff)
      also have "\<dots> \<le> x" by (simp add: n_def)
      finally show ?thesis by simp
    qed
    have hi: "x < (2::rat) ^ nat b"
    proof -
      have "x < of_int n + 1" unfolding n_def by linarith
      also have "\<dots> = of_int (n + 1)" by simp
      also have "\<dots> \<le> of_int (2 ^ nat b)" using bb(2) by (simp only: of_int_le_iff)
      finally show ?thesis by simp
    qed
    show ?thesis using lo hi b1 by (simp add: il power_int_def)
  next
    case False
    define y where "y = 1 / x"
    have y1: "1 < y" using False assms by (simp add: y_def)
    define m where "m = \<lceil>y\<rceil> - 1"
    have m1: "1 \<le> m"
    proof -
      have "1 < \<lceil>y\<rceil>" using y1 by (simp add: less_ceiling_iff)
      then show ?thesis by (simp add: m_def)
    qed
    then have m0: "0 < m" by simp
    define b where "b = bitlen m"
    have bb: "2 ^ nat (b - 1) \<le> m" "m < 2 ^ nat b"
      using bitlen_bounds [OF m0] by (simp_all add: b_def)
    have b1: "1 \<le> b"
    proof (rule ccontr)
      assume "\<not> 1 \<le> b"
      then have "nat b = 0" by simp
      then show False using bb(2) m1 by simp
    qed
    have il: "ilog2 x = - b" using False by (simp add: ilog2_def b_def m_def y_def)
    have yle: "y \<le> 2 ^ nat b"
    proof -
      have "y \<le> of_int \<lceil>y\<rceil>" by simp
      also have "\<dots> = of_int (m + 1)" by (simp add: m_def)
      also have "\<dots> \<le> of_int (2 ^ nat b)" using bb(2) by (simp only: of_int_le_iff)
      finally show ?thesis by simp
    qed
    have ygt: "2 ^ nat (b - 1) < y"
    proof -
      have "(of_int (2 ^ nat (b - 1)) :: rat) \<le> of_int m" using bb(1) by (simp only: of_int_le_iff)
      also have "\<dots> = of_int \<lceil>y\<rceil> - 1" by (simp add: m_def)
      also have "\<dots> < y" using ceiling_correct [of y] by linarith
      finally show ?thesis by simp
    qed
    have xy: "x = 1 / y" using assms by (simp add: y_def)
    have y0: "0 < y" using y1 by simp
    have lo: "1 / 2 ^ nat b \<le> x"
      unfolding xy using yle y0 by (simp add: field_simps)
    have hi: "x < 1 / 2 ^ nat (b - 1)"
      unfolding xy using ygt y0 by (simp add: field_simps)
    have p1: "power_int (2::rat) (- b) = 1 / 2 ^ nat b"
      using b1 by (simp add: power_int_def field_simps)
    have p2: "power_int (2::rat) (1 - b) = 1 / 2 ^ nat (b - 1)"
    proof (cases "b = 1")
      case True
      then show ?thesis by simp
    next
      case False
      then have "1 - b < 0" using b1 by simp
      moreover have "nat (- (1 - b)) = nat (b - 1)" by simp
      ultimately show ?thesis by (simp add: power_int_def field_simps)
    qed
    show ?thesis using lo hi by (simp add: il p1 p2)
  qed
  then show "power_int 2 (ilog2 x) \<le> x" and "x < power_int 2 (ilog2 x + 1)" by simp_all
qed

lemma round_half_even_of_int: "round_half_even (of_int z) = z"
  by (simp add: round_half_even_def)

lemma power_int_mono2:
  fixes a b :: int
  assumes "a \<le> b"
  shows "power_int (2::rat) a \<le> power_int 2 b"
  using assms by (intro power_int_increasing) simp_all

lemma fp_round_exact_strict:
  assumes x: "x = of_int m * power_int 2 k" and m: "\<bar>m\<bar> < 2 ^ p"
  shows "fp_round p x = x"
proof (cases "m = 0")
  case True
  then show ?thesis by (simp add: x fp_round_def)
next
  case False
  have pk: "0 < power_int (2::rat) k" by (simp add: zero_less_power_int)
  have xn: "x \<noteq> 0" using False pk by (simp add: x)
  define a where "a = \<bar>x\<bar>"
  have a0: "0 < a" using xn by (simp add: a_def)
  define L where "L = ilog2 a"
  define e where "e = L - (int p - 1)"
  have lo: "power_int 2 L \<le> a" using ilog2_bounds(1) [OF a0] by (simp add: L_def)
  have am: "a = of_int \<bar>m\<bar> * power_int 2 k"
    using pk by (simp add: a_def x abs_mult)
  have ek: "e \<le> k"
  proof (rule ccontr)
    assume "\<not> e \<le> k"
    then have kl: "int p + k \<le> L" by (simp add: e_def)
    have "(of_int \<bar>m\<bar> :: rat) < of_int (2 ^ p)" using m by (simp only: of_int_less_iff)
    then have "a < 2 ^ p * power_int 2 k" using pk by (simp add: am)
    also have "\<dots> = power_int 2 (int p + k)" by (simp add: power_int_add)
    also have "\<dots> \<le> power_int 2 L" using kl by (rule power_int_mono2)
    finally show False using lo by simp
  qed
  define d where "d = nat (k - e)"
  have kd: "k = e + int d" using ek by (simp add: d_def)
  have pe: "power_int (2::rat) e \<noteq> 0" by simp
  have sp: "power_int (2::rat) k = 2 ^ d * power_int 2 e"
    by (simp add: kd power_int_add)
  have q: "x / power_int 2 e = of_int (m * 2 ^ d)"
    using pe by (simp add: x sp)
  have "fp_round p x = of_int (round_half_even (x / power_int 2 e)) * power_int 2 e"
    using xn by (simp add: fp_round_def e_def L_def a_def Let_def)
  also have "\<dots> = of_int (m * 2 ^ d) * power_int 2 e"
    by (simp only: q round_half_even_of_int)
  also have "\<dots> = x" by (simp add: x sp)
  finally show ?thesis .
qed

lemma fp_round_exact:
  assumes x: "x = of_int m * power_int 2 k" and m: "\<bar>m\<bar> \<le> 2 ^ p" and p: "0 < p"
  shows "fp_round p x = x"
proof (cases "\<bar>m\<bar> < 2 ^ p")
  case True
  with x show ?thesis by (rule fp_round_exact_strict)
next
  case False
  then have eq: "\<bar>m\<bar> = 2 ^ p" using m by simp
  obtain q where q: "p = Suc q" using p by (cases p) simp_all
  define h where "h = m div 2"
  have ev: "m = 2 * h"
  proof -
    have "even \<bar>m\<bar>" by (simp add: eq q)
    then have "even m" by simp
    then show ?thesis by (simp add: h_def)
  qed
  have hb: "\<bar>h\<bar> < 2 ^ p"
  proof -
    have "2 * \<bar>h\<bar> = 2 ^ p" using eq ev by (simp add: abs_mult)
    moreover have "(0::int) < 2 ^ p" by simp
    ultimately show ?thesis by linarith
  qed
  have "x = of_int h * power_int 2 (k + 1)"
    by (simp add: x ev power_int_add)
  then show ?thesis using hb by (rule fp_round_exact_strict)
qed

lemma fp_round_of_int: "\<bar>n\<bar> \<le> 2 ^ p \<Longrightarrow> 0 < p \<Longrightarrow> fp_round p (of_int n) = of_int n"
  using fp_round_exact [of "of_int n" n 0 p] by simp

lemma c_double_exact:
  "\<bar>n\<bar> \<le> 2 ^ 53 \<Longrightarrow> c_double (of_int n * power_int 2 k) = of_int n * power_int 2 k"
  unfolding c_double_def by (rule fp_round_exact [of _ n k]) simp_all

lemma c_float_exact:
  "\<bar>n\<bar> \<le> 2 ^ 24 \<Longrightarrow> c_float (of_int n * power_int 2 k) = of_int n * power_int 2 k"
  unfolding c_float_def by (rule fp_round_exact [of _ n k]) simp_all

lemma c_double_int: "\<bar>n\<bar> \<le> 2 ^ 53 \<Longrightarrow> c_double (of_int n) = of_int n"
  using c_double_exact [of n 0] by simp

lemma c_float_int: "\<bar>n\<bar> \<le> 2 ^ 24 \<Longrightarrow> c_float (of_int n) = of_int n"
  using c_float_exact [of n 0] by simp

text \<open>The arithmetic of the output length for one output of 32 bits: below the bound
  every intermediate value is a float or a double, and nothing is rounded.\<close>
lemma packet_length_value:
  assumes "m4 = m2\<lparr>numOutputs := 1, outputBitMode := 32\<rparr>"
    and "b = inputBitMode m2" and "b \<in> {4, 8, 16}"
    and "k \<in> {1, 2, 3, 4}"
    and nn: "0 \<le> totalProcBeamlets m2"
    and bound: "8 * totalProcBeamlets m2 * inputBitMode m2 \<le> 2 ^ 24"
  shows "packetOutputLength (setup_output_lengths m4 (- UDPHDRLEN) False (1 / of_int (2 ^ nat (k + 2)))) 0
           = totalProcBeamlets m2 * 2 ^ nat (6 - k)"
proof -
  define t where "t = totalProcBeamlets m2"
  define j :: int where "j = (if b = 4 then 2 else if b = 8 then 3 else 4)"
  have bj: "(of_int b :: rat) = power_int 2 j" "b = 2 ^ nat j" "0 \<le> j" "j \<le> 4" "2 \<le> j"
    using assms(3) by (auto simp: j_def)
  have t0: "0 \<le> t" using nn by (simp add: t_def)
  have tb: "8 * t * b \<le> 2 ^ 24" using bound assms(2) by (simp add: t_def)
  have b4: "4 \<le> b" "b \<le> 16" using assms(3) by auto
  have tsmall: "32 * t \<le> 2 ^ 24"
  proof -
    have "8 * t * 4 \<le> 8 * t * b" using b4(1) t0 by (intro mult_left_mono) simp_all
    then show ?thesis using tb by simp
  qed
  have tbnn: "0 \<le> 8 * t * b" using t0 b4 by simp
  have fb: "c_float (of_int b) = of_int b" using b4 by (intro c_float_int) simp
  have ib: "inputBitMode m4 = b" "outputBitMode m4 = 32" "totalProcBeamlets m4 = t"
    using assms(1,2) by (simp_all add: t_def)
  have bps: "c_double (c_float (of_int (inputBitMode m4)) / 8) = power_int 2 (j - 3)"
  proof -
    have "c_float (of_int (inputBitMode m4)) / 8 = (of_int 1 :: rat) * power_int 2 (j - 3)"
      using fb by (simp add: ib bj(1) power_int_diff)
    moreover have "c_double (of_int 1 * power_int 2 (j - 3)) = of_int 1 * power_int 2 (j - 3)"
      by (rule c_double_exact) simp
    ultimately show ?thesis by simp
  qed
  have smp: "c_double (c_double (of_int (totalProcBeamlets m4 * UDPNPOL)) * power_int 2 (j - 3))
               = of_int (4 * t) * power_int 2 (j - 3)"
  proof -
    have "c_double (of_int (4 * t)) = of_int (4 * t)"
      using t0 tsmall by (intro c_double_int) simp
    moreover have "c_double (of_int (4 * t) * power_int 2 (j - 3)) = of_int (4 * t) * power_int 2 (j - 3)"
      using t0 tsmall by (intro c_double_exact) simp
    ultimately show ?thesis by (simp add: ib UDPNPOL_def mult.commute)
  qed
  have sixteen: "c_double (of_int UDPNTIMESLICE) = 16"
    using c_double_int [of 16] by (simp add: UDPNTIMESLICE_def)
  have val: "of_int (4 * t) * power_int 2 (j - 3) * 16 = (of_int (8 * t * b) :: rat)"
  proof -
    have "power_int (2::rat) (j - 3) * 8 = power_int 2 j"
      by (simp add: power_int_diff)
    then have "of_int (4 * t) * power_int 2 (j - 3) * 16 = (of_int (8 * t) * power_int 2 j :: rat)"
      by (simp add: field_simps)
    then show ?thesis by (simp add: bj(1) [symmetric])
  qed
  have pay: "c_double (of_int (4 * t) * power_int 2 (j - 3) * 16) = of_int (8 * t * b)"
  proof -
    have "c_double (of_int (8 * t * b)) = of_int (8 * t * b)"
      using tbnn tb by (intro c_double_int) simp
    then show ?thesis by (simp only: val)
  qed
  have zero: "c_double (of_int (numPorts m4 * (- UDPHDRLEN + UDPHDRLEN))) = 0"
    by (simp add: c_double_def fp_round_def)
  have sum: "c_double (0 + of_int (8 * t * b)) = of_int (8 * t * b)"
    using tbnn tb c_double_int [of "8 * t * b"] by simp
  have w1: "c_trunc (c_double (c_double (of_int (numPorts m4 * (- UDPHDRLEN + UDPHDRLEN)))
              + c_double (c_double (c_double (of_int (totalProcBeamlets m4 * UDPNPOL))
                                     * c_double (c_float (of_int (inputBitMode m4)) / 8))
                            * c_double (of_int UDPNTIMESLICE))))
            = 8 * t * b"
    by (simp only: bps smp sixteen pay zero sum c_trunc_of_int)
  have ratio: "c_float (c_float (of_int (outputBitMode m4)) / c_float (of_int (inputBitMode m4)))
                 = power_int 2 (5 - j)"
  proof -
    have "c_float (of_int 32) = 32" using c_float_int [of 32] by simp
    then have "c_float (of_int (outputBitMode m4)) / c_float (of_int (inputBitMode m4))
                 = (of_int 1 :: rat) * power_int 2 (5 - j)"
      using fb by (simp add: ib bj(1) power_int_diff)
    moreover have "c_float (of_int 1 * power_int 2 (5 - j)) = of_int 1 * power_int 2 (5 - j)"
      by (rule c_float_exact) simp
    ultimately show ?thesis by simp
  qed
  have u1: "c_float (c_float (of_int (8 * t * b)) * power_int 2 (5 - j))
              = of_int (8 * t * b) * power_int 2 (5 - j)"
  proof -
    have "c_float (of_int (8 * t * b)) = of_int (8 * t * b)"
      using tbnn tb by (intro c_float_int) simp
    moreover have "c_float (of_int (8 * t * b) * power_int 2 (5 - j))
                     = of_int (8 * t * b) * power_int 2 (5 - j)"
      using tbnn tb by (intro c_float_exact) simp
    ultimately show ?thesis by simp
  qed
  have kk: "1 \<le> k" "k \<le> 4" using assms(4) by auto
  have mf: "(1 / of_int (2 ^ nat (k + 2)) :: rat) = power_int 2 (- (k + 2))"
    using kk by (simp add: power_int_def field_simps)
  have u2: "c_float (of_int (8 * t * b) * power_int 2 (5 - j) * power_int 2 (- (k + 2)))
              = of_int (t * 2 ^ nat (6 - k))"
  proof -
    have "power_int (2::rat) (5 - j) * power_int 2 (- (k + 2)) = power_int 2 (5 - j - (k + 2))"
      using power_int_add [of "2::rat" "5 - j" "- (k + 2)"] by simp
    then have e: "of_int (8 * t * b) * power_int 2 (5 - j) * power_int 2 (- (k + 2))
               = (of_int (8 * t * b) * power_int 2 (5 - j - (k + 2)) :: rat)"
      by (simp only: mult.assoc)
    have "c_float (of_int (8 * t * b) * power_int 2 (5 - j - (k + 2)))
            = of_int (8 * t * b) * power_int 2 (5 - j - (k + 2))"
      using tbnn tb by (intro c_float_exact) simp
    moreover have "(of_int (8 * t * b) * power_int 2 (5 - j - (k + 2)) :: rat)
                     = of_int (t * 2 ^ nat (6 - k))"
    proof -
      have "(of_int (8 * t * b) :: rat) = of_int t * power_int 2 (3 + j)"
        by (simp add: bj(1) power_int_add)
      then have "(of_int (8 * t * b) * power_int 2 (5 - j - (k + 2)) :: rat)
                   = of_int t * (power_int 2 (3 + j) * power_int 2 (5 - j - (k + 2)))"
        by simp
      also have "power_int (2::rat) (3 + j) * power_int 2 (5 - j - (k + 2)) = power_int 2 (6 - k)"
        using power_int_add [of "2::rat" "3 + j" "5 - j - (k + 2)"] by simp
      also have "power_int (2::rat) (6 - k) = 2 ^ nat (6 - k)"
        using kk by (simp add: power_int_def)
      finally show ?thesis by simp
    qed
    ultimately show ?thesis by (simp only: e)
  qed
  have w2: "c_trunc (c_float (c_float (c_float (of_int (8 * t * b))
                  * c_float (c_float (of_int (outputBitMode m4)) / c_float (of_int (inputBitMode m4))))
                  * (1 / of_int (2 ^ nat (k + 2)))))
            = t * 2 ^ nat (6 - k)"
    by (simp only: ratio u1 mf u2 c_trunc_of_int)
  have no: "numOutputs m4 = 1" using assms(1) by simp
  show ?thesis
    unfolding setup_output_lengths_def Let_def
    by (simp only: w1 w2 if_False) (simp add: no t_def)
qed

lemma setup_decimated:
  assumes md: "processingMode m \<in> decimated_stokes_modes"
    and bits: "inputBitMode m \<in> {4, 8, 16}"
  shows "lofar_udp_setup_processing m
           = (0, setup_output_lengths ((setup_default_bitmode m)\<lparr>numOutputs := 1, outputBitMode := 32\<rparr>)
                   (- UDPHDRLEN) False (1 / of_int (2 ^ nat ((processingMode m mod 10) + 2))))"
proof -
  define m2 where "m2 = setup_default_bitmode m"
  have pm2: "processingMode m2 = processingMode m"
    by (simp add: m2_def setup_default_bitmode_def Let_def)
  have sw: "mode_switch m2 = Some (- UDPHDRLEN, False,
              1 / of_int (2 ^ nat ((processingMode m mod 10) + 2)), 1, 32)"
    using mode_switch_decimated [of m2] md pm2 by simp
  have nc: "\<not> processingMode m \<le> 1" using decimated_not_copy [OF md] by simp
  have m4: "(if calibrateData (m2\<lparr>numOutputs := 1, outputBitMode := 32\<rparr>) = 1
             then m2\<lparr>numOutputs := 1, outputBitMode := 32\<rparr>\<lparr>outputBitMode := 32\<rparr>
             else m2\<lparr>numOutputs := 1, outputBitMode := 32\<rparr>)
            = m2\<lparr>numOutputs := 1, outputBitMode := 32\<rparr>"
    by simp
  show ?thesis
    using decimated_known [OF md] nc sw m4
    by (simp add: lofar_udp_setup_processing_def m2_def [symmetric] Let_def)
qed

text \<open>
  C5. For every processing mode in 101..104, 111..114, 121..124 and 131..134, an input
  bit mode of 4, 8 or 16 and a number of processed beamlets whose packet payload
  \<open>8 * totalProcBeamlets * inputBitMode\<close> does not exceed \<open>2 ^ 24\<close> bytes (a port carries at
  most 244 beamlets, so four ports of 16-bit samples give 124928),
  \<open>lofar_udp_setup_processing\<close> succeeds with exactly one output, an output bit mode of
  32 and an output length per packet equal to the size formula for the non-copying
  modes, taken with scale 1 and one output, divided by \<open>2 ^ ((mode mod 10) + 2)\<close>. For
  every mode outside the enumerated closed set the function fails with code 1.
\<close>
theorem setup_processing_modes:
  "(processingMode m \<in> decimated_stokes_modes \<and> inputBitMode m \<in> {4, 8, 16}
      \<and> 0 \<le> totalProcBeamlets m \<and> 8 * totalProcBeamlets m * inputBitMode m \<le> 2 ^ 24 \<longrightarrow>
      fst (lofar_udp_setup_processing m) = 0
      \<and> numOutputs (snd (lofar_udp_setup_processing m)) = 1
      \<and> outputBitMode (snd (lofar_udp_setup_processing m)) = 32
      \<and> of_int (packetOutputLength (snd (lofar_udp_setup_processing m)) 0)
           = spec_output_length (numPorts m) 0 (totalProcBeamlets m) (inputBitMode m) 32 1 1
               / 2 ^ nat (processingMode m mod 10 + 2))
   \<and> (processingMode m \<notin> enumerated_modes \<longrightarrow> fst (lofar_udp_setup_processing m) = 1)"
proof (intro conjI impI)
  assume a: "processingMode m \<in> decimated_stokes_modes \<and> inputBitMode m \<in> {4, 8, 16}
      \<and> 0 \<le> totalProcBeamlets m \<and> 8 * totalProcBeamlets m * inputBitMode m \<le> 2 ^ 24"
  define m2 where "m2 = setup_default_bitmode m"
  define k where "k = processingMode m mod 10"
  have kk: "k \<in> {1, 2, 3, 4}" using decimated_mod [of "processingMode m"] a by (auto simp: k_def)
  have b2: "inputBitMode m2 = inputBitMode m" "totalProcBeamlets m2 = totalProcBeamlets m"
    by (simp_all add: m2_def setup_default_bitmode_def Let_def)
  have eq: "lofar_udp_setup_processing m
           = (0, setup_output_lengths (m2\<lparr>numOutputs := 1, outputBitMode := 32\<rparr>)
                   (- UDPHDRLEN) False (1 / of_int (2 ^ nat (k + 2))))"
    using setup_decimated [of m] a by (simp add: m2_def k_def)
  show "fst (lofar_udp_setup_processing m) = 0" by (simp add: eq)
  show "numOutputs (snd (lofar_udp_setup_processing m)) = 1"
    by (simp add: eq setup_output_lengths_def Let_def)
  show "outputBitMode (snd (lofar_udp_setup_processing m)) = 32"
    by (simp add: eq setup_output_lengths_def Let_def)
  have bits: "inputBitMode m \<in> {4, 8, 16}" using a by simp
  have nn: "0 \<le> totalProcBeamlets m2" using a b2 by simp
  have bd: "8 * totalProcBeamlets m2 * inputBitMode m2 \<le> 2 ^ 24" using a b2 by simp
  have "packetOutputLength (setup_output_lengths (m2\<lparr>numOutputs := 1, outputBitMode := 32\<rparr>)
            (- UDPHDRLEN) False (1 / of_int (2 ^ nat (k + 2)))) 0
          = totalProcBeamlets m2 * 2 ^ nat (6 - k)"
    using bits kk nn bd b2(1)
    by (intro packet_length_value [where b = "inputBitMode m"]) simp_all
  then have len: "packetOutputLength (snd (lofar_udp_setup_processing m)) 0
               = totalProcBeamlets m * 2 ^ nat (6 - k)"
    by (simp add: eq b2)
  have bnz: "(of_int (inputBitMode m) :: rat) \<noteq> 0" using a by auto
  have "k = 1 \<or> k = 2 \<or> k = 3 \<or> k = 4" using kk by simp
  then have pw: "(256 :: rat) / 2 ^ nat (k + 2) = of_int (2 ^ nat (6 - k))"
    by (elim disjE) simp_all
  have sp: "spec_output_length (numPorts m) 0 (totalProcBeamlets m) (inputBitMode m) 32 1 1
          = of_int (totalProcBeamlets m) * 256"
    using bnz by (simp add: spec_output_length_def UDPNPOL_def UDPNTIMESLICE_def field_simps)
  have "(of_int (packetOutputLength (snd (lofar_udp_setup_processing m)) 0) :: rat)
          = of_int (totalProcBeamlets m) * (256 / 2 ^ nat (k + 2))"
    by (simp only: len pw of_int_mult)
  also have "\<dots> = of_int (totalProcBeamlets m) * 256 / 2 ^ nat (k + 2)"
    by simp
  finally show "of_int (packetOutputLength (snd (lofar_udp_setup_processing m)) 0)
           = spec_output_length (numPorts m) 0 (totalProcBeamlets m) (inputBitMode m) 32 1 1
               / 2 ^ nat (processingMode m mod 10 + 2)"
    by (simp only: sp k_def)
next
  assume "processingMode m \<notin> enumerated_modes"
  then show "fst (lofar_udp_setup_processing m) = 1" by (rule setup_reject)
qed


theorem setup_processing_modes_witness:
  "processingMode (ex_meta\<lparr>processingMode := 102, totalProcBeamlets := 122\<rparr>) \<in> decimated_stokes_modes
   \<and> inputBitMode (ex_meta\<lparr>processingMode := 102, totalProcBeamlets := 122\<rparr>) \<in> {4, 8, 16}
   \<and> 0 \<le> totalProcBeamlets (ex_meta\<lparr>processingMode := 102, totalProcBeamlets := 122\<rparr>)
   \<and> 8 * totalProcBeamlets (ex_meta\<lparr>processingMode := 102, totalProcBeamlets := 122\<rparr>)
        * inputBitMode (ex_meta\<lparr>processingMode := 102, totalProcBeamlets := 122\<rparr>) \<le> 2 ^ 24
   \<and> fst (lofar_udp_setup_processing (ex_meta\<lparr>processingMode := 102, totalProcBeamlets := 122\<rparr>)) = 0
   \<and> packetOutputLength
         (snd (lofar_udp_setup_processing (ex_meta\<lparr>processingMode := 102, totalProcBeamlets := 122\<rparr>))) 0
       = 1952
   \<and> processingMode (ex_meta\<lparr>processingMode := 3\<rparr>) \<notin> enumerated_modes
   \<and> fst (lofar_udp_setup_processing (ex_meta\<lparr>processingMode := 3\<rparr>)) = 1"
proof -
  have a: "processingMode (ex_meta\<lparr>processingMode := 102, totalProcBeamlets := 122\<rparr>) \<in> decimated_stokes_modes"
    by (simp add: decimated_stokes_modes_def)
  have b: "inputBitMode (ex_meta\<lparr>processingMode := 102, totalProcBeamlets := 122\<rparr>) \<in> {4, 8, 16}"
    by (simp add: ex_meta_def)
  have d: "0 \<le> totalProcBeamlets (ex_meta\<lparr>processingMode := 102, totalProcBeamlets := 122\<rparr>)"
    "8 * totalProcBeamlets (ex_meta\<lparr>processingMode := 102, totalProcBeamlets := 122\<rparr>)
        * inputBitMode (ex_meta\<lparr>processingMode := 102, totalProcBeamlets := 122\<rparr>) \<le> 2 ^ 24"
    by (simp_all add: ex_meta_def)
  have c: "processingMode (ex_meta\<lparr>processingMode := 3\<rparr>) \<notin> enumerated_modes"
    by (simp add: enumerated_modes_def)
  have v: "spec_output_length 1 0 122 8 32 1 1 / 2 ^ nat (102 mod 10 + 2) = (1952 :: rat)"
    by (simp add: spec_output_length_def UDPNPOL_def UDPNTIMESLICE_def)
  show ?thesis
    using setup_processing_modes [of "ex_meta\<lparr>processingMode := 102, totalProcBeamlets := 122\<rparr>"]
      setup_processing_modes [of "ex_meta\<lparr>processingMode := 3\<rparr>"] a b c d v
    by (simp add: ex_meta_def)
qed

text \<open>
  Beyond the bound the conversion of \<open>workingData\<close> to \<open>float\<close> rounds. With 16777217
  beamlets of 8-bit samples in mode 101 the payload is \<open>2 ^ 30 + 64\<close> bytes, which lies
  half way between two floats and is rounded to \<open>2 ^ 30\<close>: the output length is
  536870912 where the size formula gives 536870944.
\<close>
lemma setup_processing_rounds:
  "packetOutputLength
     (snd (lofar_udp_setup_processing (ex_meta\<lparr>processingMode := 101, totalProcBeamlets := 16777217\<rparr>))) 0
     = 536870912
   \<and> spec_output_length 1 0 16777217 8 32 1 1 / 2 ^ nat (101 mod 10 + 2) = 536870944"
  by code_simp

section \<open>Properties of the header parser\<close>

lemma ports2: "ports (ex_meta\<lparr>numPorts := 2\<rparr>) = [0, 1]"
  by (simp add: ports_def upt_rec)

lemma ports3: "ports (ex_meta\<lparr>numPorts := 3\<rparr>) = [0, 1, 2]"
  by (simp add: ports_def upt_rec)

text \<open>
  C8. Two ports with 122 and 61 beamlets of 8-bit samples have packet lengths 7824 and
  3920. \<open>lofar_udp_parse_headers\<close> succeeds, as the claim says, but emits no warning:
  the comparison with the previous port is made for \<open>port > 1\<close> only, so the pair of
  ports 0 and 1 is never compared. With a third port the pair of ports 1 and 2 is
  compared and the warning is there.
\<close>
theorem parse_headers_first_pair_unwarned:
  "fst (lofar_udp_parse_headers ex_K (ex_meta\<lparr>numPorts := 2\<rparr>) ex_headers2 (0, 0)) = 0
   \<and> fst (snd (lofar_udp_parse_headers ex_K (ex_meta\<lparr>numPorts := 2\<rparr>) ex_headers2 (0, 0))) = []
   \<and> portPacketLength (snd (snd (lofar_udp_parse_headers ex_K (ex_meta\<lparr>numPorts := 2\<rparr>) ex_headers2 (0, 0)))) 0 = 7824
   \<and> portPacketLength (snd (snd (lofar_udp_parse_headers ex_K (ex_meta\<lparr>numPorts := 2\<rparr>) ex_headers2 (0, 0)))) 1 = 3920
   \<and> fst (snd (lofar_udp_parse_headers ex_K (ex_meta\<lparr>numPorts := 3\<rparr>) ex_headers2 (0, 0)))
       = [PacketLengthWarning 2 1]"
  by (simp add: lofar_udp_parse_headers_def ports2 ports3 parse_port_def ex_headers2_def ex_header_def
      ex_K_def UDPNTIMESLICE_def UDPHDRLEN_def UDPNPOL_def c_trunc_def Let_def)

section \<open>Properties of the shift\<close>

lemma same_port_view_refl: "same_port_view p r r"
  by (simp add: same_port_view_def)

lemma same_port_view_trans:
  "same_port_view p a b \<Longrightarrow> same_port_view p b c \<Longrightarrow> same_port_view p a c"
  by (simp add: same_port_view_def)

lemma precheck_view_step:
  "same_port_view p (snd (snd acc)) (snd (snd (shift_precheck_port sp q acc)))"
  by (cases acc) (simp add: shift_precheck_port_def same_port_view_def Let_def)

lemma precheck_view_fold:
  "same_port_view p (snd (snd acc)) (snd (snd (fold (shift_precheck_port sp) ps acc)))"
proof (induction ps arbitrary: acc)
  case Nil
  show ?case by (simp add: same_port_view_refl)
next
  case (Cons q qs)
  show ?case
    using same_port_view_trans [OF precheck_view_step [of p acc sp q]
                                   Cons.IH [of "shift_precheck_port sp q acc"]]
    by simp
qed

lemma precheck_total:
  "fst (fold (shift_precheck_port sp) ps acc) = fst acc + sum_list (map sp ps)"
proof (induction ps arbitrary: acc)
  case Nil
  show ?case by simp
next
  case (Cons q qs)
  have "fst (shift_precheck_port sp q acc) = fst acc + sp q"
    by (cases acc) (simp add: shift_precheck_port_def Let_def)
  then show ?case using Cons.IH [of "shift_precheck_port sp q acc"] by simp
qed

lemma precheck_fix_step:
  assumes "readerType (input (snd (snd acc))) = ZSTDCOMPRESSED \<longrightarrow>
             decompressionTracker_pos (input (snd (snd acc))) q
               \<le> portPacketLength (meta (snd (snd acc))) q * packetsPerIteration (meta (snd (snd acc)))"
  shows "fst (snd (shift_precheck_port sp q acc)) = fst (snd acc)"
  using assms by (cases acc) (auto simp: shift_precheck_port_def Let_def)

lemma precheck_fix:
  assumes "readerType (input (snd (snd acc))) = ZSTDCOMPRESSED \<longrightarrow>
             (\<forall>q \<in> set ps. decompressionTracker_pos (input (snd (snd acc))) q
               \<le> portPacketLength (meta (snd (snd acc))) q * packetsPerIteration (meta (snd (snd acc))))"
  shows "fst (snd (fold (shift_precheck_port sp) ps acc)) = fst (snd acc)"
  using assms
proof (induction ps arbitrary: acc)
  case Nil
  show ?case by simp
next
  case (Cons q qs)
  let ?a = "shift_precheck_port sp q acc"
  have v: "\<And>p. same_port_view p (snd (snd acc)) (snd (snd ?a))" by (rule precheck_view_step)
  have s: "fst (snd ?a) = fst (snd acc)"
    using Cons.prems by (intro precheck_fix_step) simp
  have "readerType (input (snd (snd ?a))) = ZSTDCOMPRESSED \<longrightarrow>
             (\<forall>q \<in> set qs. decompressionTracker_pos (input (snd (snd ?a))) q
               \<le> portPacketLength (meta (snd (snd ?a))) q * packetsPerIteration (meta (snd (snd ?a))))"
    using Cons.prems v by (simp add: same_port_view_def)
  then show ?case using Cons.IH [of ?a] s by simp
qed


lemma shift_port_other:
  assumes "q \<noteq> p"
  shows "same_port_view p (snd acc) (snd (shift_port sp hp fb q acc))"
    and "inputDataOffset (meta (snd (shift_port sp hp fb q acc))) p = inputDataOffset (meta (snd acc)) p"
  using assms by (cases acc; simp add: shift_port_def same_port_view_def Let_def)+

text \<open>The effect of the shift on one port, written out.\<close>
lemma shift_port_effect:
  assumes "hp = 0 \<or> hp = 1"
    and "\<not> (readerType (input r) = ZSTDCOMPRESSED
            \<and> decompressionTracker_pos (input r) p
                 > portPacketLength (meta r) p * packetsPerIteration (meta r))"
    and "k = min (sp p) (reader_packetsPerIteration r)"
    and "ppl = portPacketLength (meta r) p"
    and "moved = memmove (inputData (meta r) p) (- hp * ppl)
                      (ppl * (packetsPerIteration (meta r) - max k 0 - hp)) ((max k 0 + hp) * ppl)"
  shows "inputData (meta (snd (shift_port sp hp fb p (a, r)))) p
           = (if k > 0 \<or> hp = 1
              then (if replayDroppedPackets (meta r) = 0 then zero_fill moved (- 2 * ppl) ppl else moved)
              else inputData (meta r) p)"
    and "inputDataOffset (meta (snd (shift_port sp hp fb p (a, r)))) p
           = (if k > 0 \<or> hp = 1 then max k 0 * ppl else inputDataOffset (meta r) p)"
    and "fst (shift_port sp hp fb p (a, r)) = (if hp = 1 \<and> k < 0 then - 1 else a)"
  using assms
  by (auto simp: shift_port_def Let_def min_def max_def algebra_simps)


lemma shift_port_rv:
  assumes "hp = 0 \<or> hp = 1"
  shows "fst (shift_port sp hp fb p (a, r))
           = (if hp = 1 \<and> min (sp p) (reader_packetsPerIteration r) < 0 then - 1 else a)"
  using assms by (auto simp: shift_port_def Let_def min_def)

lemma shift_port_guard:
  assumes "hp = 0 \<or> hp = 1"
    and "- 2 * portPacketLength (meta r) p \<le> i" and "i < - portPacketLength (meta r) p"
  shows "inputData (meta (snd (shift_port sp hp fb p (a, r)))) p i
           = (if (0 < min (sp p) (reader_packetsPerIteration r) \<or> hp = 1)
                 \<and> replayDroppedPackets (meta r) = 0
              then 0 else inputData (meta r) p i)"
  using assms by (auto simp: shift_port_def Let_def min_def memmove_def zero_fill_def)

lemma shift_fold_notin:
  assumes "p \<notin> set ps"
  shows "same_port_view p (snd acc) (snd (fold (shift_port sp hp fb) ps acc))
         \<and> inputDataOffset (meta (snd (fold (shift_port sp hp fb) ps acc))) p
             = inputDataOffset (meta (snd acc)) p"
  using assms
proof (induction ps arbitrary: acc)
  case Nil
  show ?case by (simp add: same_port_view_refl)
next
  case (Cons q qs)
  have qp: "q \<noteq> p" and nin: "p \<notin> set qs" using Cons.prems by auto
  let ?a = "shift_port sp hp fb q acc"
  have x: "same_port_view p (snd acc) (snd ?a)"
    by (rule shift_port_other(1) [OF qp])
  have y: "inputDataOffset (meta (snd ?a)) p = inputDataOffset (meta (snd acc)) p"
    by (rule shift_port_other(2) [OF qp])
  have z: "same_port_view p (snd ?a) (snd (fold (shift_port sp hp fb) qs ?a))
           \<and> inputDataOffset (meta (snd (fold (shift_port sp hp fb) qs ?a))) p
               = inputDataOffset (meta (snd ?a)) p"
    by (rule Cons.IH [OF nin])
  have "same_port_view p (snd acc) (snd (fold (shift_port sp hp fb) qs ?a))"
    using x z by (blast intro: same_port_view_trans)
  then show ?case using y z by simp
qed

lemma shift_fold_in:
  assumes "distinct ps" and "p \<in> set ps"
  shows "\<exists>a r0. same_port_view p (snd acc) r0
           \<and> inputDataOffset (meta r0) p = inputDataOffset (meta (snd acc)) p
           \<and> inputData (meta (snd (fold (shift_port sp hp fb) ps acc))) p
               = inputData (meta (snd (shift_port sp hp fb p (a, r0)))) p
           \<and> inputDataOffset (meta (snd (fold (shift_port sp hp fb) ps acc))) p
               = inputDataOffset (meta (snd (shift_port sp hp fb p (a, r0)))) p"
  using assms
proof (induction ps arbitrary: acc)
  case Nil
  then show ?case by simp
next
  case (Cons q qs)
  let ?a = "shift_port sp hp fb q acc"
  show ?case
  proof (cases "q = p")
    case True
    then have nin: "p \<notin> set qs" using Cons.prems(1) by simp
    have "same_port_view p (snd ?a) (snd (fold (shift_port sp hp fb) qs ?a))
          \<and> inputDataOffset (meta (snd (fold (shift_port sp hp fb) qs ?a))) p
              = inputDataOffset (meta (snd ?a)) p"
      by (rule shift_fold_notin [OF nin])
    then have "inputData (meta (snd (fold (shift_port sp hp fb) (q # qs) acc))) p
                 = inputData (meta (snd (shift_port sp hp fb p (fst acc, snd acc)))) p
               \<and> inputDataOffset (meta (snd (fold (shift_port sp hp fb) (q # qs) acc))) p
                 = inputDataOffset (meta (snd (shift_port sp hp fb p (fst acc, snd acc)))) p"
      using True by (simp add: same_port_view_def)
    then show ?thesis
      using same_port_view_refl [of p "snd acc"] by blast
  next
    case False
    then have inq: "p \<in> set qs" and dq: "distinct qs" using Cons.prems by auto
    obtain a r0 where ih: "same_port_view p (snd ?a) r0"
      "inputDataOffset (meta r0) p = inputDataOffset (meta (snd ?a)) p"
      "inputData (meta (snd (fold (shift_port sp hp fb) qs ?a))) p
               = inputData (meta (snd (shift_port sp hp fb p (a, r0)))) p"
      "inputDataOffset (meta (snd (fold (shift_port sp hp fb) qs ?a))) p
               = inputDataOffset (meta (snd (shift_port sp hp fb p (a, r0)))) p"
      using Cons.IH [OF dq inq, of ?a] by blast
    have o: "same_port_view p (snd acc) (snd ?a)"
      "inputDataOffset (meta (snd ?a)) p = inputDataOffset (meta (snd acc)) p"
      by (rule shift_port_other(1) [OF False], rule shift_port_other(2) [OF False])
    have "same_port_view p (snd acc) r0" using o(1) ih(1) by (rule same_port_view_trans)
    moreover have "inputDataOffset (meta r0) p = inputDataOffset (meta (snd acc)) p"
      using ih(2) o(2) by simp
    ultimately show ?thesis using ih(3,4) by auto
  qed
qed

lemma shift_fold_rv:
  assumes "hp = 0 \<or> hp = 1"
  shows "fst (fold (shift_port sp hp fb) ps acc)
           = (if hp = 1 \<and> (\<exists>q \<in> set ps. min (sp q) (reader_packetsPerIteration (snd acc)) < 0)
              then - 1 else fst acc)"
proof (induction ps arbitrary: acc)
  case Nil
  show ?case by simp
next
  case (Cons q qs)
  let ?a = "shift_port sp hp fb q acc"
  have r: "reader_packetsPerIteration (snd ?a) = reader_packetsPerIteration (snd acc)"
    using shift_port_step [of acc sp hp fb q] by (simp add: shift_rel_def same_control_def)
  have f: "fst ?a = (if hp = 1 \<and> min (sp q) (reader_packetsPerIteration (snd acc)) < 0 then - 1 else fst acc)"
    using shift_port_rv [OF assms, of sp fb q "fst acc" "snd acc"] by simp
  show ?case using Cons.IH [of ?a] r f by auto
qed


lemma precheck_offset:
  "inputDataOffset (meta (snd (snd (fold (shift_precheck_port sp) ps acc)))) p
     = (if p \<in> set ps then 0 else inputDataOffset (meta (snd (snd acc))) p)"
proof (induction ps arbitrary: acc)
  case Nil
  show ?case by simp
next
  case (Cons q qs)
  have "inputDataOffset (meta (snd (snd (shift_precheck_port sp q acc)))) p
          = (if p = q then 0 else inputDataOffset (meta (snd (snd acc))) p)"
    by (cases acc) (simp add: shift_precheck_port_def Let_def)
  then show ?case using Cons.IH [of "shift_precheck_port sp q acc"] by auto
qed

text \<open>The shift unfolded: the pre-check, then either nothing or the loop over the ports.\<close>
lemma shift_remainder_unfold:
  assumes "no_overshoot r"
  obtains r1 where
    "lofar_udp_shift_remainder_packets r sp hp
       = (if sum_list (map sp (ports (meta r))) < 1 then (0, r1)
          else fold (shift_port sp hp False) (ports (meta r)) (0, r1))"
    and "\<And>p. same_port_view p r r1"
    and "\<And>p. p \<in> set (ports (meta r)) \<Longrightarrow> inputDataOffset (meta r1) p = 0"
    and "inputData (meta r1) = inputData (meta r)"
proof -
  obtain t f r1 where pre: "fold (shift_precheck_port sp) (ports (meta r)) (0, False, r) = (t, f, r1)"
    by (metis prod_cases3)
  have t: "t = sum_list (map sp (ports (meta r)))"
    using precheck_total [of sp "ports (meta r)" "(0, False, r)"] pre by simp
  have f: "f = False"
    using precheck_fix [of "(0, False, r)" "ports (meta r)" sp] assms pre
    by (simp add: no_overshoot_def)
  have v: "\<And>p. same_port_view p r r1"
    using precheck_view_fold [of _ "(0, False, r)" sp "ports (meta r)"] pre by simp
  have o: "\<And>p. p \<in> set (ports (meta r)) \<Longrightarrow> inputDataOffset (meta r1) p = 0"
    using precheck_offset [of sp "ports (meta r)" "(0, False, r)"] pre by simp
  have c: "same_control r r1"
    using precheck_fold [of "(0, False, r)" sp "ports (meta r)"] pre by (simp add: precheck_rel_def)
  have pp: "ports (meta r1) = ports (meta r)"
    using c by (simp add: same_control_def ports_def)
  have d: "inputData (meta r1) = inputData (meta r)"
    using v by (auto simp: same_port_view_def)
  have "lofar_udp_shift_remainder_packets r sp hp
       = (if sum_list (map sp (ports (meta r))) < 1 then (0, r1)
          else fold (shift_port sp hp False) (ports (meta r)) (0, r1))"
    using pre t f pp by (simp add: lofar_udp_shift_remainder_packets_def)
  then show ?thesis using that v o d by blast
qed


lemma shift_remainder_cases:
  obtains f r1 where
    "lofar_udp_shift_remainder_packets r sp hp = (0, r1)
     \<or> lofar_udp_shift_remainder_packets r sp hp
           = fold (shift_port sp hp f) (ports (meta r)) (0, r1)"
    and "1 \<le> sum_list (map sp (ports (meta r))) \<Longrightarrow>
           lofar_udp_shift_remainder_packets r sp hp
             = fold (shift_port sp hp f) (ports (meta r)) (0, r1)"
    and "\<And>p. same_port_view p r r1"
proof -
  obtain t f r1 where pre: "fold (shift_precheck_port sp) (ports (meta r)) (0, False, r) = (t, f, r1)"
    by (metis prod_cases3)
  have t: "t = sum_list (map sp (ports (meta r)))"
    using precheck_total [of sp "ports (meta r)" "(0, False, r)"] pre by simp
  have v: "\<And>p. same_port_view p r r1"
    using precheck_view_fold [of _ "(0, False, r)" sp "ports (meta r)"] pre by simp
  have c: "same_control r r1"
    using precheck_fold [of "(0, False, r)" sp "ports (meta r)"] pre by (simp add: precheck_rel_def)
  have pp: "ports (meta r1) = ports (meta r)"
    using c by (simp add: same_control_def ports_def)
  have e: "lofar_udp_shift_remainder_packets r sp hp
       = (if t < 1 \<and> \<not> f then (0, r1)
          else fold (shift_port sp hp f) (ports (meta r)) (0, r1))"
    using pre pp by (simp add: lofar_udp_shift_remainder_packets_def)
  have a: "lofar_udp_shift_remainder_packets r sp hp = (0, r1)
     \<or> lofar_udp_shift_remainder_packets r sp hp
           = fold (shift_port sp hp f) (ports (meta r)) (0, r1)"
    using e by (cases "t < 1 \<and> \<not> f") simp_all
  have b: "1 \<le> sum_list (map sp (ports (meta r))) \<Longrightarrow>
           lofar_udp_shift_remainder_packets r sp hp
             = fold (shift_port sp hp f) (ports (meta r)) (0, r1)"
    using e t by simp
  show ?thesis using that [OF a b v] by blast
qed

lemma ports_distinct: "distinct (ports m)"
  by (simp add: ports_def)

lemma in_ports: "p \<in> set (ports m) \<longleftrightarrow> p < nat (numPorts m)"
  by (simp add: ports_def)

lemma shift_remainder_effect:
  assumes pad: "handlePadding = 0 \<or> handlePadding = 1"
    and port: "port < nat (numPorts (meta r))"
    and nov: "no_overshoot r"
    and work: "1 \<le> sum_list (map shiftPackets (ports (meta r)))"
    and res: "lofar_udp_shift_remainder_packets r shiftPackets handlePadding = (rv, r')"
    and k: "k = max 0 (min (shiftPackets port) (reader_packetsPerIteration r))"
    and ppl: "ppl = portPacketLength (meta r) port"
  shows "rv = (if handlePadding = 1
                  \<and> (\<exists>q \<in> set (ports (meta r)).
                        min (shiftPackets q) (reader_packetsPerIteration r) < 0)
               then - 1 else 0)"
    and "0 < min (shiftPackets port) (reader_packetsPerIteration r) \<or> handlePadding = 1 \<Longrightarrow>
           (\<forall>i. 0 \<le> i \<and> i < (k + handlePadding) * ppl \<longrightarrow>
                inputData (meta r') port (- handlePadding * ppl + i)
                  = inputData (meta r) port
                      ((packetsPerIteration (meta r) - k - handlePadding) * ppl + i))
           \<and> (\<forall>j. (j < - handlePadding * ppl \<or> - handlePadding * ppl + (k + handlePadding) * ppl \<le> j)
                    \<and> (replayDroppedPackets (meta r) = 0 \<longrightarrow> j < - 2 * ppl \<or> - ppl \<le> j) \<longrightarrow>
                inputData (meta r') port j = inputData (meta r) port j)
           \<and> inputDataOffset (meta r') port = k * ppl"
    and "\<not> (0 < min (shiftPackets port) (reader_packetsPerIteration r) \<or> handlePadding = 1) \<Longrightarrow>
           inputData (meta r') port = inputData (meta r) port"
proof -
  obtain r1 where u:
    "lofar_udp_shift_remainder_packets r shiftPackets handlePadding
       = (if sum_list (map shiftPackets (ports (meta r))) < 1 then (0, r1)
          else fold (shift_port shiftPackets handlePadding False) (ports (meta r)) (0, r1))"
    and v1: "\<And>p. same_port_view p r r1"
    and o1: "\<And>p. p \<in> set (ports (meta r)) \<Longrightarrow> inputDataOffset (meta r1) p = 0"
    using shift_remainder_unfold [OF nov, of shiftPackets handlePadding] by metis
  have fo: "(rv, r') = fold (shift_port shiftPackets handlePadding False) (ports (meta r)) (0, r1)"
    using u work res by simp
  have rp1: "reader_packetsPerIteration r1 = reader_packetsPerIteration r"
    using v1 [of port] by (simp add: same_port_view_def)
  show "rv = (if handlePadding = 1
                  \<and> (\<exists>q \<in> set (ports (meta r)).
                        min (shiftPackets q) (reader_packetsPerIteration r) < 0)
               then - 1 else 0)"
    using shift_fold_rv [OF pad, of shiftPackets False "ports (meta r)" "(0, r1)"] fo [symmetric] rp1
    by simp
  have pin: "port \<in> set (ports (meta r))" using port by (simp add: in_ports)
  obtain a r0 where v0: "same_port_view port r1 r0"
    and d0: "inputData (meta r') port
               = inputData (meta (snd (shift_port shiftPackets handlePadding False port (a, r0)))) port"
    and f0: "inputDataOffset (meta r') port
               = inputDataOffset (meta (snd (shift_port shiftPackets handlePadding False port (a, r0)))) port"
    using shift_fold_in [OF ports_distinct pin, of "(0, r1)" shiftPackets handlePadding False]
      fo [symmetric] by auto
  have v: "same_port_view port r r0" using v1 [of port] v0 by (rule same_port_view_trans)
  have nov0: "\<not> (readerType (input r0) = ZSTDCOMPRESSED
            \<and> decompressionTracker_pos (input r0) port
                 > portPacketLength (meta r0) port * packetsPerIteration (meta r0))"
    using nov pin v by (auto simp: no_overshoot_def same_port_view_def)
  define mk where "mk = min (shiftPackets port) (reader_packetsPerIteration r)"
  define moved where "moved = memmove (inputData (meta r) port) (- handlePadding * ppl)
                      (ppl * (packetsPerIteration (meta r) - max mk 0 - handlePadding))
                      ((max mk 0 + handlePadding) * ppl)"
  have eff: "inputData (meta r') port
           = (if mk > 0 \<or> handlePadding = 1
              then (if replayDroppedPackets (meta r) = 0 then zero_fill moved (- 2 * ppl) ppl else moved)
              else inputData (meta r) port)"
    "inputDataOffset (meta r') port
           = (if mk > 0 \<or> handlePadding = 1 then max mk 0 * ppl else inputDataOffset (meta r0) port)"
    using shift_port_effect [OF pad nov0, of mk shiftPackets ppl moved False a] v d0 f0
    by (simp_all add: same_port_view_def mk_def moved_def ppl)
  have kk: "k = max mk 0" "0 \<le> k" using k unfolding mk_def by linarith+
  show "inputData (meta r') port = inputData (meta r) port"
    if "\<not> (0 < min (shiftPackets port) (reader_packetsPerIteration r) \<or> handlePadding = 1)"
    using that eff(1) by (auto simp: mk_def)
  show "(\<forall>i. 0 \<le> i \<and> i < (k + handlePadding) * ppl \<longrightarrow>
                inputData (meta r') port (- handlePadding * ppl + i)
                  = inputData (meta r) port
                      ((packetsPerIteration (meta r) - k - handlePadding) * ppl + i))
           \<and> (\<forall>j. (j < - handlePadding * ppl \<or> - handlePadding * ppl + (k + handlePadding) * ppl \<le> j)
                    \<and> (replayDroppedPackets (meta r) = 0 \<longrightarrow> j < - 2 * ppl \<or> - ppl \<le> j) \<longrightarrow>
                inputData (meta r') port j = inputData (meta r) port j)
           \<and> inputDataOffset (meta r') port = k * ppl"
    if act: "0 < min (shiftPackets port) (reader_packetsPerIteration r) \<or> handlePadding = 1"
  proof -
    have act': "mk > 0 \<or> handlePadding = 1" using act by (simp only: mk_def)
    have val: "inputData (meta r') port x
                 = (if replayDroppedPackets (meta r) = 0 \<and> - 2 * ppl \<le> x \<and> x < - 2 * ppl + ppl then 0
                    else if - handlePadding * ppl \<le> x
                            \<and> x < - handlePadding * ppl + (k + handlePadding) * ppl
                         then inputData (meta r) port
                                (ppl * (packetsPerIteration (meta r) - k - handlePadding)
                                  + (x - (- handlePadding * ppl)))
                         else inputData (meta r) port x)" for x
    proof -
      have e1: "inputData (meta r') port
                  = (if replayDroppedPackets (meta r) = 0 then zero_fill moved (- 2 * ppl) ppl else moved)"
        by (simp only: eff(1) act' if_True)
      show ?thesis
        unfolding e1 moved_def kk(1) [symmetric] memmove_def zero_fill_def by simp
    qed
    have off: "inputDataOffset (meta r') port = k * ppl"
      by (simp only: eff(2) kk(1) [symmetric] act' if_True)
    have part1: "inputData (meta r') port (- handlePadding * ppl + i)
                  = inputData (meta r) port
                      ((packetsPerIteration (meta r) - k - handlePadding) * ppl + i)"
      if i: "0 \<le> i \<and> i < (k + handlePadding) * ppl" for i
    proof -
      have "0 < (k + handlePadding) * ppl" using i by linarith
      moreover have "0 \<le> k + handlePadding" using kk(2) pad by auto
      ultimately have pos: "0 < ppl" by (simp add: zero_less_mult_iff)
      have hp: "handlePadding * ppl \<le> ppl" using pad pos by auto
      have g: "\<not> (- 2 * ppl \<le> - handlePadding * ppl + i \<and> - handlePadding * ppl + i < - 2 * ppl + ppl)"
        using hp i by linarith
      have d: "- handlePadding * ppl \<le> - handlePadding * ppl + i
                 \<and> - handlePadding * ppl + i < - handlePadding * ppl + (k + handlePadding) * ppl"
        using i by linarith
      have "inputData (meta r') port (- handlePadding * ppl + i)
              = inputData (meta r) port
                  (ppl * (packetsPerIteration (meta r) - k - handlePadding)
                     + (- handlePadding * ppl + i - (- handlePadding * ppl)))"
        using g d by (simp only: val [of "- handlePadding * ppl + i"] if_True if_False simp_thms)
      then show ?thesis by (simp add: algebra_simps)
    qed
    have part2: "inputData (meta r') port j = inputData (meta r) port j"
      if j: "(j < - handlePadding * ppl \<or> - handlePadding * ppl + (k + handlePadding) * ppl \<le> j)
                    \<and> (replayDroppedPackets (meta r) = 0 \<longrightarrow> j < - 2 * ppl \<or> - ppl \<le> j)" for j
    proof -
      have g: "\<not> (replayDroppedPackets (meta r) = 0 \<and> - 2 * ppl \<le> j \<and> j < - 2 * ppl + ppl)"
        using j by auto
      have d: "\<not> (- handlePadding * ppl \<le> j
                   \<and> j < - handlePadding * ppl + (k + handlePadding) * ppl)"
        using j by linarith
      show ?thesis using g d by (simp only: val [of j] if_False)
    qed
    show ?thesis using part1 part2 off by blast
  qed
qed


lemma shift_remainder_no_work:
  assumes nov: "no_overshoot r"
    and zero: "\<forall>q \<in> set (ports (meta r)). shiftPackets q = 0"
    and res: "lofar_udp_shift_remainder_packets r shiftPackets handlePadding = (rv, r')"
  shows "rv = 0 \<and> inputData (meta r') = inputData (meta r)"
proof -
  obtain r1 where u:
    "lofar_udp_shift_remainder_packets r shiftPackets handlePadding
       = (if sum_list (map shiftPackets (ports (meta r))) < 1 then (0, r1)
          else fold (shift_port shiftPackets handlePadding False) (ports (meta r)) (0, r1))"
    and d: "inputData (meta r1) = inputData (meta r)"
    using shift_remainder_unfold [OF nov, of shiftPackets handlePadding] by metis
  have "\<And>ps. (\<forall>q \<in> set ps. shiftPackets q = 0) \<Longrightarrow> sum_list (map shiftPackets ps) = 0"
  proof -
    fix ps show "(\<forall>q \<in> set ps. shiftPackets q = 0) \<Longrightarrow> sum_list (map shiftPackets ps) = 0"
      by (induction ps) simp_all
  qed
  then have "sum_list (map shiftPackets (ports (meta r))) = 0" using zero by blast
  then show ?thesis using u d res by simp
qed

text \<open>
  C3 (as amended). Take a call of \<open>lofar_udp_shift_remainder_packets\<close> with
  \<open>handlePadding\<close> 0 or 1 on a reader without decompression overshoot, and a port \<open>p\<close>.
  Let \<open>k\<close> be \<open>shift[p]\<close> capped at the configured \<open>packetsPerIteration\<close> and raised to 0
  if negative. When the requested shifts add up to at least 1 (the call gets past its
  no-work check): if the capped shift is positive or padding is requested, exactly
  \<open>(k + padding) * portPacketLength\<close> bytes go from offset
  \<open>(packetsPerIteration - k - padding) * portPacketLength\<close> to offset
  \<open>- padding * portPacketLength\<close>, whatever the overlap, every other byte outside the
  zeroed guard packet stays, and the next read lands at \<open>k * portPacketLength\<close>;
  otherwise the port's buffer is unchanged. Such a call returns 0 when no port's capped
  shift is negative, and the warning value \<open>-1\<close> when padding is requested and some
  port's capped shift is negative. No call returns a fatal value, and a call whose
  requested shifts are all 0 returns 0 and moves nothing.
\<close>
theorem shift_remainder_moves:
  assumes pad: "handlePadding = 0 \<or> handlePadding = 1"
    and port: "port < nat (numPorts (meta r))"
    and nov: "no_overshoot r"
    and res: "lofar_udp_shift_remainder_packets r shiftPackets handlePadding = (rv, r')"
  shows "(1 \<le> sum_list (map shiftPackets (ports (meta r))) \<longrightarrow>
           (let k = max 0 (min (shiftPackets port) (reader_packetsPerIteration r));
                ppl = portPacketLength (meta r) port
            in ((\<forall>q \<in> set (ports (meta r)).
                    0 \<le> min (shiftPackets q) (reader_packetsPerIteration r)) \<longrightarrow> rv = 0)
               \<and> (handlePadding = 1
                    \<and> (\<exists>q \<in> set (ports (meta r)).
                          min (shiftPackets q) (reader_packetsPerIteration r) < 0) \<longrightarrow> rv = - 1)
               \<and> (0 < min (shiftPackets port) (reader_packetsPerIteration r) \<or> handlePadding = 1 \<longrightarrow>
                    (\<forall>i. 0 \<le> i \<and> i < (k + handlePadding) * ppl \<longrightarrow>
                       inputData (meta r') port (- handlePadding * ppl + i)
                         = inputData (meta r) port
                             ((packetsPerIteration (meta r) - k - handlePadding) * ppl + i))
                    \<and> (\<forall>j. (j < - handlePadding * ppl
                              \<or> - handlePadding * ppl + (k + handlePadding) * ppl \<le> j)
                             \<and> (replayDroppedPackets (meta r) = 0 \<longrightarrow> j < - 2 * ppl \<or> - ppl \<le> j) \<longrightarrow>
                       inputData (meta r') port j = inputData (meta r) port j)
                    \<and> inputDataOffset (meta r') port = k * ppl)
               \<and> (\<not> (0 < min (shiftPackets port) (reader_packetsPerIteration r) \<or> handlePadding = 1) \<longrightarrow>
                    inputData (meta r') port = inputData (meta r) port)))
       \<and> rv \<le> 0
       \<and> ((\<forall>q \<in> set (ports (meta r)). shiftPackets q = 0) \<longrightarrow>
             rv = 0 \<and> inputData (meta r') = inputData (meta r))"
proof (intro conjI impI)
  assume work: "1 \<le> sum_list (map shiftPackets (ports (meta r)))"
  note eff = shift_remainder_effect [OF pad port nov work res refl refl]
  have rv0: "rv = 0"
    if "\<forall>q \<in> set (ports (meta r)). 0 \<le> min (shiftPackets q) (reader_packetsPerIteration r)"
  proof -
    have "\<not> (\<exists>q \<in> set (ports (meta r)). min (shiftPackets q) (reader_packetsPerIteration r) < 0)"
      using that by (simp add: not_less)
    then show ?thesis using eff(1) by (simp only: simp_thms if_False)
  qed
  have rv1: "rv = - 1"
    if "handlePadding = 1
          \<and> (\<exists>q \<in> set (ports (meta r)). min (shiftPackets q) (reader_packetsPerIteration r) < 0)"
    using that eff(1) by simp
  show "let k = max 0 (min (shiftPackets port) (reader_packetsPerIteration r));
            ppl = portPacketLength (meta r) port
        in ((\<forall>q \<in> set (ports (meta r)).
                    0 \<le> min (shiftPackets q) (reader_packetsPerIteration r)) \<longrightarrow> rv = 0)
               \<and> (handlePadding = 1
                    \<and> (\<exists>q \<in> set (ports (meta r)).
                          min (shiftPackets q) (reader_packetsPerIteration r) < 0) \<longrightarrow> rv = - 1)
               \<and> (0 < min (shiftPackets port) (reader_packetsPerIteration r) \<or> handlePadding = 1 \<longrightarrow>
                    (\<forall>i. 0 \<le> i \<and> i < (k + handlePadding) * ppl \<longrightarrow>
                       inputData (meta r') port (- handlePadding * ppl + i)
                         = inputData (meta r) port
                             ((packetsPerIteration (meta r) - k - handlePadding) * ppl + i))
                    \<and> (\<forall>j. (j < - handlePadding * ppl
                              \<or> - handlePadding * ppl + (k + handlePadding) * ppl \<le> j)
                             \<and> (replayDroppedPackets (meta r) = 0 \<longrightarrow> j < - 2 * ppl \<or> - ppl \<le> j) \<longrightarrow>
                       inputData (meta r') port j = inputData (meta r) port j)
                    \<and> inputDataOffset (meta r') port = k * ppl)
               \<and> (\<not> (0 < min (shiftPackets port) (reader_packetsPerIteration r) \<or> handlePadding = 1) \<longrightarrow>
                    inputData (meta r') port = inputData (meta r) port)"
    unfolding Let_def
    using rv0 rv1 eff(2,3)
    by (intro conjI impI) blast+
next
  show "rv \<le> 0" by (rule shift_remainder_frame(3) [OF res])
next
  assume "\<forall>q \<in> set (ports (meta r)). shiftPackets q = 0"
  then show "rv = 0" and "inputData (meta r') = inputData (meta r)"
    using shift_remainder_no_work [OF nov _ res] by blast+
qed

lemma ex_ports: "ports (meta ex_reader) = [0]"
  by (simp add: ports_def ex_reader_def ex_meta_def)

text \<open>The example reader with the same shift below 1 requested on its port: nothing moves.\<close>
lemma ex_shift_zero:
  "lofar_udp_shift_remainder_packets ex_reader (\<lambda>q. c) 1
     = (0, ex_reader\<lparr>meta := (meta ex_reader)\<lparr>inputDataOffset := (inputDataOffset (meta ex_reader))(0 := 0)\<rparr>\<rparr>)"
  if "c < 1" for c
  using that by (simp add: lofar_udp_shift_remainder_packets_def ex_ports shift_precheck_port_def Let_def)
    (simp add: ex_reader_def)

text \<open>
  The claim as stated has one packet copied to the guard for a shift of 0 with padding.
  With all shifts 0 the call leaves at its no-work check, before any move: byte \<open>-16\<close>
  is not the byte at 48.
\<close>
theorem shift_remainder_moves_counterexample:
  "inputData (meta (snd (lofar_udp_shift_remainder_packets ex_reader (\<lambda>q. 0) 1))) 0 (- 16)
     \<noteq> inputData (meta ex_reader) 0 48"
  by (simp add: ex_shift_zero) (simp add: ex_reader_def ex_meta_def ex_window_def)


lemma ex_no_overshoot: "no_overshoot ex_reader"
  by (simp add: no_overshoot_def ex_reader_def)

theorem shift_remainder_moves_witness:
  "(0::nat) < nat (numPorts (meta ex_reader))
   \<and> no_overshoot ex_reader
   \<and> 1 \<le> sum_list (map (\<lambda>q. 2 :: int) (ports (meta ex_reader)))
   \<and> fst (lofar_udp_shift_remainder_packets ex_reader (\<lambda>q. 2) 1) = 0
   \<and> inputData (meta (snd (lofar_udp_shift_remainder_packets ex_reader (\<lambda>q. 2) 1))) 0 (- 16)
       = inputData (meta ex_reader) 0 16
   \<and> inputDataOffset (meta (snd (lofar_udp_shift_remainder_packets ex_reader (\<lambda>q. 2) 1))) 0 = 32
   \<and> fst (lofar_udp_shift_remainder_packets (ex_reader\<lparr>meta := ex_meta\<lparr>numPorts := 2\<rparr>\<rparr>)
             (\<lambda>q. if q = 0 then 3 else - 1) 1) = - 1"
proof -
  define r2 where "r2 = ex_reader\<lparr>meta := ex_meta\<lparr>numPorts := 2\<rparr>\<rparr>"
  have pad: "(1::int) = 0 \<or> (1::int) = 1" by simp
  have port: "(0::nat) < nat (numPorts (meta ex_reader))" by (simp add: ex_reader_def ex_meta_def)
  have work: "1 \<le> sum_list (map (\<lambda>q. 2 :: int) (ports (meta ex_reader)))" by (simp add: ex_ports)
  have res: "lofar_udp_shift_remainder_packets ex_reader (\<lambda>q. 2) 1
               = (fst (lofar_udp_shift_remainder_packets ex_reader (\<lambda>q. 2) 1),
                  snd (lofar_udp_shift_remainder_packets ex_reader (\<lambda>q. 2) 1))"
    by simp
  have f: "reader_packetsPerIteration ex_reader = 4" "portPacketLength (meta ex_reader) 0 = 16"
    "packetsPerIteration (meta ex_reader) = 4"
    by (simp_all add: ex_reader_def ex_meta_def)
  note th = shift_remainder_moves [OF pad port ex_no_overshoot res]
  have a: "fst (lofar_udp_shift_remainder_packets ex_reader (\<lambda>q. 2) 1) = 0"
    and b: "\<forall>i. 0 \<le> i \<and> i < 48 \<longrightarrow>
              inputData (meta (snd (lofar_udp_shift_remainder_packets ex_reader (\<lambda>q. 2) 1))) 0 (- 16 + i)
                = inputData (meta ex_reader) 0 (16 + i)"
    and c: "inputDataOffset (meta (snd (lofar_udp_shift_remainder_packets ex_reader (\<lambda>q. 2) 1))) 0 = 32"
    using th work by (simp_all add: Let_def f ex_ports)
  have "inputData (meta (snd (lofar_udp_shift_remainder_packets ex_reader (\<lambda>q. 2) 1))) 0 (- 16 + 0)
          = inputData (meta ex_reader) 0 (16 + 0)"
    using b by (intro b [rule_format]) simp
  moreover have "fst (lofar_udp_shift_remainder_packets r2 (\<lambda>q. if q = 0 then 3 else - 1) 1) = - 1"
  proof -
    have port2: "(0::nat) < nat (numPorts (meta r2))" by (simp add: r2_def)
    have nov2: "no_overshoot r2" by (simp add: no_overshoot_def r2_def ex_reader_def)
    have p2: "ports (meta r2) = [0, 1]" by (simp add: r2_def ports2)
    have res2: "lofar_udp_shift_remainder_packets r2 (\<lambda>q. if q = 0 then 3 else - 1) 1
               = (fst (lofar_udp_shift_remainder_packets r2 (\<lambda>q. if q = 0 then 3 else - 1) 1),
                  snd (lofar_udp_shift_remainder_packets r2 (\<lambda>q. if q = 0 then 3 else - 1) 1))"
      by simp
    have f2: "reader_packetsPerIteration r2 = 4" by (simp add: r2_def ex_reader_def)
    show ?thesis
      using shift_remainder_moves [OF pad port2 nov2 res2] by (simp add: Let_def p2 f2)
  qed
  ultimately show ?thesis using a c port work ex_no_overshoot unfolding r2_def by simp
qed

text \<open>
  The documentation of the function promises \<open>-1\<close> for every negative shift. The test
  for a negative shift sits inside the block that a port enters only with a positive
  shift or with padding, so without padding a negative shift passes unnoticed: with
  shifts 3 and \<open>-1\<close> on two ports and no padding the call returns 0.
\<close>
lemma shift_negative_unwarned:
  "fst (lofar_udp_shift_remainder_packets (ex_reader\<lparr>meta := ex_meta\<lparr>numPorts := 2\<rparr>\<rparr>)
          (\<lambda>q. if q = 0 then 3 else - 1) 0) = 0"
  by (simp add: lofar_udp_shift_remainder_packets_def ports_def upt_rec shift_precheck_port_def
      shift_port_def Let_def ex_reader_def ex_meta_def)

text \<open>
  C6 (as amended). With \<open>handlePadding\<close> 0 or 1: when replay is disabled, the requested
  shifts add up to at least 1 and the port's capped shift is positive or padding is
  requested, the packet-length region starting two packet lengths before index 0 is all
  zeros after the shift. When replay is enabled that region is left as it was by every
  call.
\<close>
theorem shift_remainder_guard:
  assumes pad: "handlePadding = 0 \<or> handlePadding = 1"
    and port: "port < nat (numPorts (meta r))"
    and res: "lofar_udp_shift_remainder_packets r shiftPackets handlePadding = (rv, r')"
  shows "(replayDroppedPackets (meta r) = 0
            \<and> 1 \<le> sum_list (map shiftPackets (ports (meta r)))
            \<and> (0 < min (shiftPackets port) (reader_packetsPerIteration r) \<or> handlePadding = 1) \<longrightarrow>
           (\<forall>i. - 2 * portPacketLength (meta r) port \<le> i \<and> i < - portPacketLength (meta r) port \<longrightarrow>
                inputData (meta r') port i = 0))
       \<and> (replayDroppedPackets (meta r) \<noteq> 0 \<longrightarrow>
           (\<forall>i. - 2 * portPacketLength (meta r) port \<le> i \<and> i < - portPacketLength (meta r) port \<longrightarrow>
                inputData (meta r') port i = inputData (meta r) port i))"
proof -
  obtain f r1 where c:
    "lofar_udp_shift_remainder_packets r shiftPackets handlePadding = (0, r1)
     \<or> lofar_udp_shift_remainder_packets r shiftPackets handlePadding
           = fold (shift_port shiftPackets handlePadding f) (ports (meta r)) (0, r1)"
    and w: "1 \<le> sum_list (map shiftPackets (ports (meta r))) \<Longrightarrow>
           lofar_udp_shift_remainder_packets r shiftPackets handlePadding
             = fold (shift_port shiftPackets handlePadding f) (ports (meta r)) (0, r1)"
    and v1: "\<And>p. same_port_view p r r1"
    using shift_remainder_cases [of r shiftPackets handlePadding] by metis
  have pin: "port \<in> set (ports (meta r))" using port by (simp add: in_ports)
  have loop: "inputData (meta r') port i
                = (if (0 < min (shiftPackets port) (reader_packetsPerIteration r) \<or> handlePadding = 1)
                      \<and> replayDroppedPackets (meta r) = 0
                   then 0 else inputData (meta r) port i)"
    if fo: "(rv, r') = fold (shift_port shiftPackets handlePadding f) (ports (meta r)) (0, r1)"
      and i: "- 2 * portPacketLength (meta r) port \<le> i" "i < - portPacketLength (meta r) port"
    for i
  proof -
    obtain a r0 where v0: "same_port_view port r1 r0"
      and d0: "inputData (meta r') port
               = inputData (meta (snd (shift_port shiftPackets handlePadding f port (a, r0)))) port"
      using shift_fold_in [OF ports_distinct pin, of "(0, r1)" shiftPackets handlePadding f]
        fo [symmetric] by auto
    have v: "same_port_view port r r0" using v1 [of port] v0 by (rule same_port_view_trans)
    have i0: "- 2 * portPacketLength (meta r0) port \<le> i" "i < - portPacketLength (meta r0) port"
      using i v by (simp_all add: same_port_view_def)
    show ?thesis
      using shift_port_guard [OF pad i0, of shiftPackets f a] v d0
      by (simp add: same_port_view_def)
  qed
  show ?thesis
  proof (intro conjI impI allI)
    fix i
    assume a: "replayDroppedPackets (meta r) = 0
            \<and> 1 \<le> sum_list (map shiftPackets (ports (meta r)))
            \<and> (0 < min (shiftPackets port) (reader_packetsPerIteration r) \<or> handlePadding = 1)"
      and i: "- 2 * portPacketLength (meta r) port \<le> i \<and> i < - portPacketLength (meta r) port"
    have fo: "(rv, r') = fold (shift_port shiftPackets handlePadding f) (ports (meta r)) (0, r1)"
      using w a res by simp
    show "inputData (meta r') port i = 0"
      using loop [OF fo] i a by simp
  next
    fix i
    assume a: "replayDroppedPackets (meta r) \<noteq> 0"
      and i: "- 2 * portPacketLength (meta r) port \<le> i \<and> i < - portPacketLength (meta r) port"
    from c show "inputData (meta r') port i = inputData (meta r) port i"
    proof
      assume "lofar_udp_shift_remainder_packets r shiftPackets handlePadding = (0, r1)"
      then have "r' = r1" using res by simp
      then show ?thesis using v1 [of port] by (simp add: same_port_view_def)
    next
      assume "lofar_udp_shift_remainder_packets r shiftPackets handlePadding
           = fold (shift_port shiftPackets handlePadding f) (ports (meta r)) (0, r1)"
      then have fo: "(rv, r') = fold (shift_port shiftPackets handlePadding f) (ports (meta r)) (0, r1)"
        using res by simp
      show ?thesis using loop [OF fo] i a by simp
    qed
  qed
qed

text \<open>
  The claim as stated has the guard zeroed whenever the shift runs with replay disabled.
  With all shifts 0 the call leaves before touching the buffers, and the byte at
  \<open>-32\<close> keeps its non-zero value.
\<close>
theorem shift_remainder_guard_counterexample:
  "replayDroppedPackets (meta ex_reader) = 0
   \<and> - 2 * portPacketLength (meta ex_reader) 0 \<le> - 32
   \<and> - 32 < - portPacketLength (meta ex_reader) 0
   \<and> inputData (meta (snd (lofar_udp_shift_remainder_packets ex_reader (\<lambda>q. 0) 1))) 0 (- 32) \<noteq> 0"
  by (simp add: ex_shift_zero) (simp add: ex_reader_def ex_meta_def ex_window_def)


theorem shift_remainder_guard_witness:
  "(0::nat) < nat (numPorts (meta ex_reader))
   \<and> replayDroppedPackets (meta ex_reader) = 0
   \<and> 1 \<le> sum_list (map (\<lambda>q. 2 :: int) (ports (meta ex_reader)))
   \<and> inputData (meta (snd (lofar_udp_shift_remainder_packets ex_reader (\<lambda>q. 2) 1))) 0 (- 32) = 0
   \<and> replayDroppedPackets (meta (ex_reader\<lparr>meta := ex_meta\<lparr>replayDroppedPackets := 1\<rparr>\<rparr>)) \<noteq> 0
   \<and> inputData (meta (snd (lofar_udp_shift_remainder_packets
                            (ex_reader\<lparr>meta := ex_meta\<lparr>replayDroppedPackets := 1\<rparr>\<rparr>) (\<lambda>q. 2) 1))) 0 (- 32)
       = inputData (meta (ex_reader\<lparr>meta := ex_meta\<lparr>replayDroppedPackets := 1\<rparr>\<rparr>)) 0 (- 32)"
proof -
  define rb where "rb = ex_reader\<lparr>meta := ex_meta\<lparr>replayDroppedPackets := 1\<rparr>\<rparr>"
  have pad: "(1::int) = 0 \<or> (1::int) = 1" by simp
  have port: "(0::nat) < nat (numPorts (meta ex_reader))" by (simp add: ex_reader_def ex_meta_def)
  have portb: "(0::nat) < nat (numPorts (meta rb))" by (simp add: rb_def ex_meta_def)
  have work: "1 \<le> sum_list (map (\<lambda>q. 2 :: int) (ports (meta ex_reader)))" by (simp add: ex_ports)
  have res: "lofar_udp_shift_remainder_packets ex_reader (\<lambda>q. 2) 1
               = (fst (lofar_udp_shift_remainder_packets ex_reader (\<lambda>q. 2) 1),
                  snd (lofar_udp_shift_remainder_packets ex_reader (\<lambda>q. 2) 1))"
    by simp
  have resb: "lofar_udp_shift_remainder_packets rb (\<lambda>q. 2) 1
               = (fst (lofar_udp_shift_remainder_packets rb (\<lambda>q. 2) 1),
                  snd (lofar_udp_shift_remainder_packets rb (\<lambda>q. 2) 1))"
    by simp
  have f: "reader_packetsPerIteration ex_reader = 4" "portPacketLength (meta ex_reader) 0 = 16"
    "replayDroppedPackets (meta ex_reader) = 0"
    by (simp_all add: ex_reader_def ex_meta_def)
  have fb: "portPacketLength (meta rb) 0 = 16" "replayDroppedPackets (meta rb) \<noteq> 0"
    by (simp_all add: rb_def ex_meta_def)
  have a: "\<forall>i. - 32 \<le> i \<and> i < - 16 \<longrightarrow>
              inputData (meta (snd (lofar_udp_shift_remainder_packets ex_reader (\<lambda>q. 2) 1))) 0 i = 0"
    using shift_remainder_guard [OF pad port res] work by (simp add: f)
  have b: "\<forall>i. - 32 \<le> i \<and> i < - 16 \<longrightarrow>
              inputData (meta (snd (lofar_udp_shift_remainder_packets rb (\<lambda>q. 2) 1))) 0 i
                = inputData (meta rb) 0 i"
    using shift_remainder_guard [OF pad portb resb] by (simp add: fb)
  have "inputData (meta (snd (lofar_udp_shift_remainder_packets ex_reader (\<lambda>q. 2) 1))) 0 (- 32) = 0"
    by (intro a [rule_format]) simp
  moreover have "inputData (meta (snd (lofar_udp_shift_remainder_packets rb (\<lambda>q. 2) 1))) 0 (- 32)
                = inputData (meta rb) 0 (- 32)"
    by (intro b [rule_format]) simp
  ultimately show ?thesis
    using port work f(3) fb(2) unfolding rb_def by simp
qed

section \<open>Properties of a re-used reader\<close>

















































text \<open>
  A run that has to scan: the window of \<^term>\<open>ex_reader\<close> holds packets
  2000000100 to 2000000103, the file continues with 2000000104 onwards, and the
  target 2000000106 lies in the window after next. The re-use reads forward,
  moves the target to the front of the buffer and leaves the last packet one
  before the target, with the read counter cleared and no cap.
\<close>

lemma reuse_scan_example:
  "map_option (\<lambda>(rv, r). (rv, lastPacket (meta r), packetsRead (meta r), packetsReadMax (meta r),
                            ex_pn (inputData (meta r) 0) 0))
     (lofar_udp_file_reader_reuse ex_K 5 ex_pn reader_nchars_NORMAL ex_reader 2000000106 (- 1))
   = Some (0, 2000000105, 0, LONG_MAX, 2000000106)"
  by code_simp

end
